theory Spec2Isabelle
  imports Main "HOL-Library.Sublist"
begin

section \<open>The program telebot.py\<close>

text \<open>
  The bot is one class, \<^verbatim>\<open>TelegramBot\<close>. Its pure part (the longest common
  substring and the phrase matcher) is translated into functions on lists; its
  effects (files, the process table, the remote API, the random generator) go
  through an explicit environment, the record \<open>world\<close>; the fields of \<open>self\<close>
  are the record \<open>bot\<close>. Every exception the code can raise on the inputs of the
  model is a value of the type \<open>error\<close>.

  A Python \<open>str\<close> is modelled as a \<open>string\<close> whose characters are the code
  points 0 to 255; the character classes below (\<open>is_space\<close>, \<open>is_alnum\<close>,
  \<open>lower_char\<close>) are the ones of Python on that range.
\<close>

subsection \<open>longest_common_substring\<close>

text \<open>
  \<^verbatim>\<open>TelegramBot.longest_common_substring\<close> fills a table \<open>dp\<close> of
  \<open>(m + 1) \<times> (n + 1)\<close> zeros, row by row, and keeps the largest cell seen so far
  (\<open>max_len\<close>) with the row where it was seen (\<open>end_pos\<close>). The state of the two
  loops is the triple \<open>(dp, max_len, end_pos)\<close>. The function is polymorphic in
  the type of characters: it only compares them.
\<close>

type_synonym lcs_state = "nat list list \<times> nat \<times> nat"

text \<open>The body of the inner loop, at row \<open>i\<close> and column \<open>j\<close>.\<close>

definition lcs_cell :: "'a list \<Rightarrow> 'a list \<Rightarrow> nat \<Rightarrow> nat \<Rightarrow> lcs_state \<Rightarrow> lcs_state" where
  "lcs_cell s1 s2 i j st =
     (case st of (dp, max_len, end_pos) \<Rightarrow>
        if s1 ! (i - 1) = s2 ! (j - 1) then
          (let v = dp ! (i - 1) ! (j - 1) + 1;
               dp' = dp[i := (dp ! i)[j := v]]
           in if v > max_len then (dp', v, i) else (dp', max_len, end_pos))
        else (dp, max_len, end_pos))"

text \<open>\<^verbatim>\<open>for j in range(1, n + 1)\<close>\<close>

definition lcs_row :: "'a list \<Rightarrow> 'a list \<Rightarrow> nat \<Rightarrow> lcs_state \<Rightarrow> lcs_state" where
  "lcs_row s1 s2 i st = fold (lcs_cell s1 s2 i) [1..<Suc (length s2)] st"

text \<open>\<^verbatim>\<open>for i in range(1, m + 1)\<close>, from the table of zeros.\<close>

definition lcs_init :: "'a list \<Rightarrow> 'a list \<Rightarrow> lcs_state" where
  "lcs_init s1 s2 = (replicate (length s1 + 1) (replicate (length s2 + 1) 0), 0, 0)"

definition lcs_table :: "'a list \<Rightarrow> 'a list \<Rightarrow> lcs_state" where
  "lcs_table s1 s2 = fold (lcs_row s1 s2) [1..<Suc (length s1)] (lcs_init s1 s2)"

text \<open>
  \<^verbatim>\<open>return s1[end_pos - max_len:end_pos] if max_len > 0 else ""\<close>. The slice
  starts at \<open>end_pos - max_len\<close>, which is never negative (lemma
  \<open>lcs_table_bounds\<close> below), so the truncating subtraction of \<open>nat\<close> is the
  subtraction of the source.
\<close>

definition longest_common_substring :: "'a list \<Rightarrow> 'a list \<Rightarrow> 'a list" where
  "longest_common_substring s1 s2 =
     (case lcs_table s1 s2 of (dp, max_len, end_pos) \<Rightarrow>
        if max_len > 0 then take max_len (drop (end_pos - max_len) s1) else [])"

text \<open>
  The length of the longest common suffix of the first \<open>i\<close> characters of \<open>s1\<close> and
  the first \<open>j\<close> characters of \<open>s2\<close>: what cell \<open>(i, j)\<close> of the table holds once
  it has been visited. It is used in the proofs only.
\<close>

fun csl :: "'a list \<Rightarrow> 'a list \<Rightarrow> nat \<Rightarrow> nat \<Rightarrow> nat" where
  "csl s1 s2 0 j = 0"
| "csl s1 s2 (Suc i) 0 = 0"
| "csl s1 s2 (Suc i) (Suc j) = (if s1 ! i = s2 ! j then Suc (csl s1 s2 i j) else 0)"

text \<open>Cell \<open>(i', j')\<close> has been visited when the loops stand before cell \<open>(i, j)\<close>.\<close>

definition visited :: "nat \<Rightarrow> nat \<Rightarrow> nat \<Rightarrow> nat \<Rightarrow> bool" where
  "visited i j i' j' = (i' < i \<or> (i' = i \<and> j' < j))"

definition lcs_inv :: "'a list \<Rightarrow> 'a list \<Rightarrow> nat \<Rightarrow> nat \<Rightarrow> lcs_state \<Rightarrow> bool" where
  "lcs_inv s1 s2 i j st =
     (case st of (dp, max_len, end_pos) \<Rightarrow>
        length dp = length s1 + 1 \<and>
        (\<forall>r \<le> length s1. length (dp ! r) = length s2 + 1) \<and>
        (\<forall>i' \<le> length s1. \<forall>j' \<le> length s2.
           dp ! i' ! j' = (if visited i j i' j' then csl s1 s2 i' j' else 0)) \<and>
        (\<forall>i' \<le> length s1. \<forall>j' \<le> length s2.
           visited i j i' j' \<longrightarrow> csl s1 s2 i' j' \<le> max_len) \<and>
        end_pos \<le> length s1 \<and>
        ((max_len = 0 \<and> end_pos = 0) \<or>
         (\<exists>j' \<le> length s2. csl s1 s2 end_pos j' = max_len)))"


subsection \<open>Operations of \<open>str\<close>\<close>

definition LF :: char where
  "LF = CHR 0x0A"

definition CR :: char where
  "CR = CHR 0x0D"

text \<open>\<^verbatim>\<open>c.isspace()\<close>: the characters that \<open>strip\<close> and \<open>split\<close> remove.\<close>

definition is_space :: "char \<Rightarrow> bool" where
  "is_space c =
     (let n = (of_char c :: nat)
      in (9 \<le> n \<and> n \<le> 13) \<or> (28 \<le> n \<and> n \<le> 32) \<or> n = 133 \<or> n = 160)"

text \<open>\<^verbatim>\<open>c.isalnum()\<close>\<close>

definition is_alnum :: "char \<Rightarrow> bool" where
  "is_alnum c =
     (let n = (of_char c :: nat)
      in (48 \<le> n \<and> n \<le> 57) \<or> (65 \<le> n \<and> n \<le> 90) \<or> (97 \<le> n \<and> n \<le> 122) \<or>
         n = 170 \<or> n = 178 \<or> n = 179 \<or> n = 181 \<or> n = 185 \<or> n = 186 \<or>
         (188 \<le> n \<and> n \<le> 190) \<or> (192 \<le> n \<and> n \<le> 214) \<or>
         (216 \<le> n \<and> n \<le> 246) \<or> 248 \<le> n)"

text \<open>Membership in \<^verbatim>\<open>string.punctuation\<close>, the 32 ASCII punctuation characters.\<close>

definition is_punctuation :: "char \<Rightarrow> bool" where
  "is_punctuation c =
     (let n = (of_char c :: nat)
      in (33 \<le> n \<and> n \<le> 47) \<or> (58 \<le> n \<and> n \<le> 64) \<or>
         (91 \<le> n \<and> n \<le> 96) \<or> (123 \<le> n \<and> n \<le> 126))"

text \<open>\<^verbatim>\<open>s.lower()\<close>\<close>

definition lower_char :: "char \<Rightarrow> char" where
  "lower_char c =
     (let n = (of_char c :: nat)
      in if (65 \<le> n \<and> n \<le> 90) \<or> (192 \<le> n \<and> n \<le> 222 \<and> n \<noteq> 215)
         then char_of (n + 32) else c)"

definition lower :: "string \<Rightarrow> string" where
  "lower s = map lower_char s"

text \<open>\<^verbatim>\<open>s.translate(str.maketrans('', '', string.punctuation))\<close>\<close>

definition remove_punctuation :: "string \<Rightarrow> string" where
  "remove_punctuation s = filter (\<lambda>c. \<not> is_punctuation c) s"

text \<open>\<^verbatim>\<open>s.rstrip()\<close> and \<^verbatim>\<open>s.strip()\<close>\<close>

definition rstrip :: "string \<Rightarrow> string" where
  "rstrip s = rev (dropWhile is_space (rev s))"

definition strip :: "string \<Rightarrow> string" where
  "strip s = rstrip (dropWhile is_space s)"

text \<open>
  \<^verbatim>\<open>s.split()\<close>: the maximal runs of characters that are not white space, in
  order; \<open>w\<close> is the run being read.
\<close>

fun split_acc :: "string \<Rightarrow> string \<Rightarrow> string list" where
  "split_acc w [] = (if w = [] then [] else [w])"
| "split_acc w (c # cs) =
     (if is_space c then (if w = [] then split_acc [] cs else w # split_acc [] cs)
      else split_acc (w @ [c]) cs)"

definition split :: "string \<Rightarrow> string list" where
  "split s = split_acc [] s"

text \<open>\<^verbatim>\<open>s.split(' ', 1)\<close>: one cut, at the first space character.\<close>

definition split_space1 :: "string \<Rightarrow> string list" where
  "split_space1 s =
     (case dropWhile (\<lambda>c. c \<noteq> CHR '' '') s of
        [] \<Rightarrow> [s]
      | _ # r \<Rightarrow> [takeWhile (\<lambda>c. c \<noteq> CHR '' '') s, r])"

text \<open>
  \<^verbatim>\<open>s.replace(old, new)\<close>: the occurrences of \<open>old\<close> are replaced from left to
  right, without overlap. With an empty \<open>old\<close>, Python puts \<open>new\<close> before every
  character and at the end.
\<close>

function replace :: "string \<Rightarrow> string \<Rightarrow> string \<Rightarrow> string" where
  "replace [] new s = new @ concat (map (\<lambda>c. c # new) s)"
| "replace (a # old) new [] = []"
| "replace (a # old) new (c # cs) =
     (if prefix (a # old) (c # cs) then new @ replace (a # old) new (drop (length old) cs)
      else c # replace (a # old) new cs)"
  by pat_completeness auto
termination
  by (relation "measure (\<lambda>(old, new, s). length s)") auto

text \<open>\<^verbatim>\<open>str(n)\<close> for an integer: its decimal digits, after a minus sign if negative.\<close>

definition digit_char :: "nat \<Rightarrow> char" where
  "digit_char d = char_of (48 + d)"

function str_nat :: "nat \<Rightarrow> string" where
  "str_nat n = (if n < 10 then [digit_char n] else str_nat (n div 10) @ [digit_char (n mod 10)])"
  by pat_completeness auto
termination
  by (relation "measure id") auto

declare str_nat.simps [simp del]

definition str_int :: "int \<Rightarrow> string" where
  "str_int i = (if i < 0 then CHR ''-'' # str_nat (nat (- i)) else str_nat (nat i))"


subsection \<open>The matcher\<close>

text \<open>
  \<^verbatim>\<open>message.lower().translate(str.maketrans('', '', string.punctuation)).split()\<close>,
  the expression the source applies to the message and to every phrase.
\<close>

definition clean_words :: "string \<Rightarrow> string list" where
  "clean_words s = split (remove_punctuation (lower s))"

text \<open>
  \<^verbatim>\<open>len(common) >= 0.8 * len(phr_word)\<close>. The source compares an integer with
  the double \<open>0.8 * n\<close>. The double nearest to 0.8 exceeds 0.8 by a relative error
  of \<open>2\<^sup>-\<^sup>5\<^sup>4\<close>, so for \<open>n\<close> a multiple of 5 the product rounds to the integer
  \<open>4n/5\<close> exactly, and for the other \<open>n\<close> (below \<open>2\<^sup>4\<^sup>9\<close>) it lies strictly
  between two integers, as \<open>4n/5\<close> does. The comparison is therefore the integer
  comparison \<open>5 * len(common) \<ge> 4 * len(phr_word)\<close> for every word that fits in
  memory.
\<close>

definition similar_word :: "string \<Rightarrow> string \<Rightarrow> bool" where
  "similar_word msg_word phr_word =
     (let common = longest_common_substring msg_word phr_word
      in 5 * length common \<ge> 4 * length phr_word)"

text \<open>
  \<^verbatim>\<open>for phr_word in phrase_words\<close>: the first similar word appends the phrase
  and breaks.
\<close>

fun scan_phrase_words :: "string \<Rightarrow> string \<Rightarrow> string list \<Rightarrow> string list \<Rightarrow> string list" where
  "scan_phrase_words phrase msg_word [] matched = matched"
| "scan_phrase_words phrase msg_word (phr_word # rest) matched =
     (if similar_word msg_word phr_word then matched @ [phrase]
      else scan_phrase_words phrase msg_word rest matched)"

text \<open>
  \<^verbatim>\<open>for msg_word in message_words\<close>: after the inner loop,
  \<^verbatim>\<open>if phrase in matched_phrases: break\<close>.
\<close>

fun scan_message_words :: "string \<Rightarrow> string list \<Rightarrow> string list \<Rightarrow> string list \<Rightarrow> string list" where
  "scan_message_words phrase phrase_words [] matched = matched"
| "scan_message_words phrase phrase_words (msg_word # rest) matched =
     (let matched' = scan_phrase_words phrase msg_word phrase_words matched
      in if phrase \<in> set matched' then matched'
         else scan_message_words phrase phrase_words rest matched')"

text \<open>
  \<^verbatim>\<open>for phrase in phrases\<close>, from \<^verbatim>\<open>matched_phrases = []\<close>: the qualifying
  list of \<^verbatim>\<open>find_similar_phrases\<close>.
\<close>

definition match_phrase :: "string list \<Rightarrow> string \<Rightarrow> string list \<Rightarrow> string list" where
  "match_phrase message_words phrase matched =
     scan_message_words phrase (clean_words phrase) message_words matched"

definition matched_phrases :: "string \<Rightarrow> string list \<Rightarrow> string list" where
  "matched_phrases message phrases = fold (match_phrase (clean_words message)) phrases []"

subsection \<open>Updates of the remote API\<close>

text \<open>
  An update is a JSON object. A key that the source reads with \<^verbatim>\<open>d[k]\<close> is a
  field of the record (the Bot API always sends \<^verbatim>\<open>update_id\<close>, \<^verbatim>\<open>chat\<close>
  and the chat's \<^verbatim>\<open>id\<close>); a key that it reads with \<^verbatim>\<open>d.get(k, default)\<close>
  or tests with \<^verbatim>\<open>k in d\<close> is an optional field.
\<close>

record user =
  user_id :: "int option"
  first_name :: "string option"
  last_name :: "string option"

record chat =
  chat_id :: int
  chat_type :: "string option"
  title :: "string option"

record message =
  msg_chat :: chat
  msg_from :: "user option"
  msg_text :: "string option"

record update =
  update_id :: int
  upd_message :: "message option"

text \<open>
  The request of \<^verbatim>\<open>get_updates\<close> and what \<^verbatim>\<open>requests.get\<close>,
  \<^verbatim>\<open>raise_for_status\<close> and \<^verbatim>\<open>response.json()\<close> make of the answer: one of
  the three exceptions that \<^verbatim>\<open>get_updates\<close> catches, or the decoded body.
\<close>

record get_request =
  req_url :: string
  req_offset :: int
  req_limit :: nat
  req_timeout :: nat

record api_reply =
  ok :: "bool option"
  result :: "update list option"

datatype http_result =
    RequestException
  | HTTPError
  | JSONDecodeError
  | Json api_reply

subsection \<open>The environment and the bot\<close>

datatype error = IOError | UnboundLocalError

text \<open>
  \<open>files\<close> maps the path of a regular file to its text; \<open>other_paths\<close> holds
  for the paths that exist without being regular files (directories, the
  entries of \<^verbatim>\<open>/proc\<close>); \<open>readable\<close> and \<open>writable\<close> say whether \<^verbatim>\<open>open\<close>
  succeeds for reading, and for writing or appending. \<open>pid\<close> is
  \<^verbatim>\<open>os.getpid()\<close> and \<open>ctime\<close> is \<^verbatim>\<open>time.ctime()\<close>. \<open>http_get k\<close> is
  the outcome of the \<open>k\<close>-th GET request, \<open>get_log\<close> the requests issued so
  far; \<open>post_ok\<close> says whether a POST succeeds, \<open>outbox\<close> holds the messages
  posted so far. \<open>rand\<close> is the stream behind \<^verbatim>\<open>random.choice\<close> and
  \<open>rand_calls\<close> the number of draws made.
\<close>

record world =
  files :: "string \<rightharpoonup> string"
  other_paths :: "string \<Rightarrow> bool"
  readable :: "string \<Rightarrow> bool"
  writable :: "string \<Rightarrow> bool"
  pid :: nat
  ctime :: string
  http_get :: "nat \<Rightarrow> get_request \<Rightarrow> http_result"
  get_log :: "get_request list"
  post_ok :: "int \<Rightarrow> string \<Rightarrow> bool"
  outbox :: "(int \<times> string) list"
  rand :: "nat \<Rightarrow> nat"
  rand_calls :: nat

text \<open>
  The fields of \<open>self\<close> that the modelled methods read. \<open>interval\<close> only sets
  the length of the pauses, which the model does not measure.
\<close>

record bot =
  api_url :: string
  bot_token :: string
  admin_id :: int
  offset :: int

text \<open>\<^verbatim>\<open>os.path.exists(path)\<close>\<close>

definition os_path_exists :: "world \<Rightarrow> string \<Rightarrow> bool" where
  "os_path_exists w path = (files w path \<noteq> None \<or> other_paths w path)"

text \<open>
  Reading in text mode translates \<^verbatim>\<open>\r\n\<close> and \<^verbatim>\<open>\r\<close> to \<^verbatim>\<open>\n\<close>
  (universal newlines).
\<close>

fun universal_newlines :: "string \<Rightarrow> string" where
  "universal_newlines [] = []"
| "universal_newlines [c] = (if c = CR then [LF] else [c])"
| "universal_newlines (c # d # cs) =
     (if c = CR then (if d = LF then LF # universal_newlines cs
                      else LF # universal_newlines (d # cs))
      else c # universal_newlines (d # cs))"

text \<open>
  \<^verbatim>\<open>with open(path, 'r') as f: f.read()\<close>: \<open>IOError\<close> when the path is not a
  regular file or may not be read.
\<close>

definition read_file :: "world \<Rightarrow> string \<Rightarrow> error + string" where
  "read_file w path =
     (case files w path of
        None \<Rightarrow> Inl IOError
      | Some content \<Rightarrow>
          if readable w path then Inr (universal_newlines content) else Inl IOError)"

text \<open>\<^verbatim>\<open>with open(path, 'a') as f: f.write(data)\<close>\<close>

definition append_file :: "world \<Rightarrow> string \<Rightarrow> string \<Rightarrow> error + world" where
  "append_file w path data =
     (if writable w path
      then Inr (w\<lparr>files := (files w)(path \<mapsto>
                 (case files w path of None \<Rightarrow> [] | Some content \<Rightarrow> content) @ data)\<rparr>)
      else Inl IOError)"

text \<open>\<^verbatim>\<open>with open(path, 'w') as f: f.write(data)\<close>\<close>

definition write_file :: "world \<Rightarrow> string \<Rightarrow> string \<Rightarrow> error + world" where
  "write_file w path data =
     (if writable w path then Inr (w\<lparr>files := (files w)(path \<mapsto> data)\<rparr>)
      else Inl IOError)"

text \<open>\<^verbatim>\<open>for line in f\<close>: the lines of a text, each with its \<^verbatim>\<open>\n\<close>.\<close>

fun lines_acc :: "string \<Rightarrow> string \<Rightarrow> string list" where
  "lines_acc cur [] = (if cur = [] then [] else [cur])"
| "lines_acc cur (c # cs) =
     (if c = LF then (cur @ [c]) # lines_acc [] cs else lines_acc (cur @ [c]) cs)"

definition file_lines :: "string \<Rightarrow> string list" where
  "file_lines content = lines_acc [] content"

text \<open>\<^verbatim>\<open>random.choice(xs)\<close> on a non-empty list: one draw from the stream.\<close>

definition random_choice :: "world \<Rightarrow> 'a list \<Rightarrow> world \<times> 'a" where
  "random_choice w xs =
     (w\<lparr>rand_calls := rand_calls w + 1\<rparr>, xs ! (rand w (rand_calls w) mod length xs))"

subsection \<open>The methods of \<open>TelegramBot\<close>\<close>

text \<open>
  \<^verbatim>\<open>log_event(text, logname)\<close>: one line appended to the log of the chat; an
  \<open>IOError\<close> is caught and the log left as it was.
\<close>

definition safe_name :: "string \<Rightarrow> string" where
  "safe_name logname =
     (let name = rstrip (filter (\<lambda>c. is_alnum c \<or> c = CHR '' '' \<or> c = CHR ''-'' \<or> c = CHR ''_'')
                           logname)
      in if name = [] then ''unknown'' else name)"

definition log_event :: "string \<Rightarrow> string \<Rightarrow> world \<Rightarrow> world" where
  "log_event text logname w =
     (let filename = ''chatlogs/'' @ safe_name logname @ ''_log.txt''
      in case append_file w filename (ctime w @ '' >> '' @ text @ [LF]) of
           Inl e \<Rightarrow> w
         | Inr w' \<Rightarrow> w')"

text \<open>
  \<^verbatim>\<open>str(chat_number).replace('+', '').replace('-', '')\<close>, the key of a chat's
  corpus in \<^verbatim>\<open>learn_phrase\<close> and in \<^verbatim>\<open>find_similar_phrases\<close>. The main loop
  passes the chat's \<^verbatim>\<open>id\<close>, an integer, as \<open>chat_number\<close>.
\<close>

definition safe_chat_id :: "int \<Rightarrow> string" where
  "safe_chat_id chat_number = replace ''-'' [] (replace ''+'' [] (str_int chat_number))"

definition words_file :: "int \<Rightarrow> string" where
  "words_file chat_number = ''dict/'' @ safe_chat_id chat_number @ ''_words.dat''"

text \<open>\<^verbatim>\<open>learn_phrase(phrase, chat_number)\<close>\<close>

definition learn_phrase :: "string \<Rightarrow> int \<Rightarrow> world \<Rightarrow> world" where
  "learn_phrase phrase chat_number w =
     (let phrase' = strip (replace ''/learn'' [] phrase)
      in if phrase' = [] then w
         else case append_file w (words_file chat_number) (phrase' @ [LF]) of
                Inl e \<Rightarrow> w
              | Inr w' \<Rightarrow> w')"

text \<open>\<^verbatim>\<open>[line.strip() for line in f if line.strip()]\<close>\<close>

definition load_phrases :: "string \<Rightarrow> string list" where
  "load_phrases content = filter (\<lambda>l. l \<noteq> []) (map strip (file_lines content))"

text \<open>
  \<^verbatim>\<open>find_similar_phrases(message, chat_number)\<close>; the result \<open>None\<close> of the
  model is the \<^verbatim>\<open>None\<close> of the source.
\<close>

definition find_similar_phrases :: "string \<Rightarrow> int \<Rightarrow> world \<Rightarrow> world \<times> string option" where
  "find_similar_phrases message chat_number w =
     (let filename = words_file chat_number
      in if \<not> os_path_exists w filename then (w, None)
         else case read_file w filename of
                Inl e \<Rightarrow> (w, None)
              | Inr content \<Rightarrow>
                  (let phrases = load_phrases content
                   in if phrases = [] then (w, None)
                      else (let matched = matched_phrases message phrases
                            in if matched \<noteq> []
                               then (case random_choice w matched of (w', p) \<Rightarrow> (w', Some p))
                               else (w, None))))"

definition help_text :: string where
  "help_text = ''Telebot - Simple Telegram Bot'' @ [LF] @ ''Commands:'' @ [LF] @
     ''/help - Show help'' @ [LF] @ ''/learn <phrase> - Teach bot a phrase'' @ [LF] @
     ''/start - Start bot''"

text \<open>\<^verbatim>\<open>process_message(message, chat_name, chat_number)\<close>\<close>

definition process_message :: "string \<Rightarrow> string \<Rightarrow> int \<Rightarrow> world \<Rightarrow> world \<times> string option" where
  "process_message message chat_name chat_number w =
     (if prefix ''/'' message then
        (let parts = split_space1 message;
             command = lower (hd parts)
         in if command = ''/help'' then (w, Some help_text)
            else if command = ''/stop'' then (w, Some ''Bot stopped'')
            else if command = ''/start'' then (w, Some ''Bot started!'')
            else if command = ''/learn'' \<and> length parts > 1
              then (learn_phrase (parts ! 1) chat_number w, Some ''Phrase learned!'')
            else find_similar_phrases message chat_number w)
      else find_similar_phrases message chat_number w)"

text \<open>
  \<^verbatim>\<open>extract_message_info(update)\<close>. The locals \<^verbatim>\<open>first_name\<close> and
  \<^verbatim>\<open>last_name\<close> (here \<open>fname\<close> and \<open>lname\<close>) are bound on the branch of
  private chats only: \<open>None\<close> is the unbound local, and reading it raises
  \<open>UnboundLocalError\<close>.
\<close>

definition user_field :: "user option \<Rightarrow> (user \<Rightarrow> 'a option) \<Rightarrow> 'a option" where
  "user_field from_user field = (case from_user of None \<Rightarrow> None | Some u \<Rightarrow> field u)"

definition user_fallback :: "user option \<Rightarrow> string" where
  "user_fallback from_user =
     ''User '' @ (case user_field from_user user_id of None \<Rightarrow> [] | Some i \<Rightarrow> str_int i)"

definition full_name :: "string \<Rightarrow> string \<Rightarrow> user option \<Rightarrow> string" where
  "full_name fname lname from_user =
     (let name = strip (fname @ '' '' @ lname)
      in if name = [] then user_fallback from_user else name)"

definition extract_message_info ::
  "update \<Rightarrow> world \<Rightarrow> error + (world \<times> (string \<times> int \<times> string \<times> int) option)" where
  "extract_message_info upd w =
     (case upd_message upd of
        None \<Rightarrow> Inr (w, None)
      | Some message \<Rightarrow>
          (case msg_text message of
             None \<Rightarrow> Inr (w, None)
           | Some text \<Rightarrow>
               (let chat = msg_chat message;
                    from_user = msg_from message;
                    cid = chat_id chat;
                    ctype = (case chat_type chat of None \<Rightarrow> ''private'' | Some t \<Rightarrow> t);
                    (chat_name, fname, lname) =
                      (if ctype = ''group'' \<or> ctype = ''supergroup''
                       then (case title chat of None \<Rightarrow> ''Chat '' @ str_int cid | Some t \<Rightarrow> t,
                             None, None)
                       else (let fname = (case user_field from_user first_name of
                                            None \<Rightarrow> [] | Some n \<Rightarrow> n);
                                 lname = (case user_field from_user last_name of
                                           None \<Rightarrow> [] | Some n \<Rightarrow> n)
                             in (full_name fname lname from_user, Some fname, Some lname)))
                in case fname of
                     None \<Rightarrow> Inl UnboundLocalError
                   | Some f \<Rightarrow>
                       (case lname of
                          None \<Rightarrow> Inl UnboundLocalError
                        | Some l \<Rightarrow>
                            (let user_name = full_name f l from_user;
                                 w' = log_event (''Message from '' @ user_name @ '': '' @ text)
                                        chat_name w
                             in Inr (w', Some (text, cid, chat_name, cid)))))))"

text \<open>
  \<^verbatim>\<open>get_updates()\<close>: the new \<open>self\<close>, the environment with the request
  recorded, and the returned list or \<^verbatim>\<open>None\<close>.
\<close>

definition get_updates :: "bot \<Rightarrow> world \<Rightarrow> bot \<times> world \<times> update list option" where
  "get_updates b w =
     (let params = \<lparr>req_url = api_url b @ bot_token b @ ''/getUpdates'',
                    req_offset = offset b + 1, req_limit = 100, req_timeout = 30\<rparr>;
          w' = w\<lparr>get_log := get_log w @ [params]\<rparr>
      in case http_get w (length (get_log w)) params of
           Json data \<Rightarrow>
             (if ok data = Some True \<and> result data \<noteq> None \<and> result data \<noteq> Some []
              then (let updates = the (result data)
                    in (b\<lparr>offset := update_id (last updates)\<rparr>, w', Some updates))
              else (b, w', None))
         | _ \<Rightarrow> (b, w', None))"

text \<open>\<^verbatim>\<open>send_message(chat_id, text)\<close>\<close>

definition send_message :: "int \<Rightarrow> string \<Rightarrow> world \<Rightarrow> world \<times> bool" where
  "send_message cid text w = (w\<lparr>outbox := outbox w @ [(cid, text)]\<rparr>, post_ok w cid text)"

subsection \<open>The main loop\<close>

definition lock_file :: string where
  "lock_file = ''tmp/telebot.lock''"

text \<open>
  The start of \<^verbatim>\<open>run\<close>, up to the creation of the lock file. The result
  \<open>False\<close> is a \<^verbatim>\<open>return\<close> of \<^verbatim>\<open>run\<close>; the bare \<^verbatim>\<open>except: pass\<close>
  swallows a failed read.
\<close>

definition acquire_lock :: "world \<Rightarrow> world \<times> bool" where
  "acquire_lock w =
     (if os_path_exists w lock_file \<and>
         (case read_file w lock_file of
            Inl e \<Rightarrow> False
          | Inr content \<Rightarrow> os_path_exists w (''/proc/'' @ strip content))
      then (w, False)
      else case write_file w lock_file (str_nat (pid w)) of
             Inl e \<Rightarrow> (w, False)
           | Inr w' \<Rightarrow> (w', True))"

text \<open>
  \<^verbatim>\<open>for update in updates\<close>. An exception of \<^verbatim>\<open>extract_message_info\<close>
  leaves the loop: the handler \<^verbatim>\<open>except Exception\<close> of \<^verbatim>\<open>run\<close> logs it,
  and the rest of the batch is not processed.
\<close>

fun process_updates :: "update list \<Rightarrow> world \<Rightarrow> world" where
  "process_updates [] w = w"
| "process_updates (upd # rest) w =
     (case extract_message_info upd w of
        Inl e \<Rightarrow> w
      | Inr (w1, None) \<Rightarrow> process_updates rest w1
      | Inr (w1, Some (text, cid, chat_name, chat_number)) \<Rightarrow>
          (case process_message text chat_name chat_number w1 of
             (w2, response) \<Rightarrow>
               (case response of
                  None \<Rightarrow> process_updates rest w2
                | Some r \<Rightarrow>
                    if r = [] then process_updates rest w2
                    else process_updates rest (fst (send_message cid r w2)))))"

text \<open>One turn of \<^verbatim>\<open>while True\<close>, without its pause.\<close>

definition iteration :: "bot \<Rightarrow> world \<Rightarrow> bot \<times> world" where
  "iteration b w =
     (case get_updates b w of
        (b', w', None) \<Rightarrow> (b', w')
      | (b', w', Some updates) \<Rightarrow> (b', process_updates updates w'))"

text \<open>
  The loop runs until the operator interrupts it. \<open>main_loop n\<close> is the run in
  which \<^verbatim>\<open>KeyboardInterrupt\<close> arrives during the pause of the \<open>n\<close>-th turn.
\<close>

fun main_loop :: "nat \<Rightarrow> bot \<Rightarrow> world \<Rightarrow> bot \<times> world" where
  "main_loop 0 b w = (b, w)"
| "main_loop (Suc n) b w = (case iteration b w of (b', w') \<Rightarrow> main_loop n b' w')"

text \<open>\<^verbatim>\<open>os.remove(lock_file)\<close> of the \<^verbatim>\<open>finally\<close> block; a failure is ignored.\<close>

definition release_lock :: "world \<Rightarrow> world" where
  "release_lock w =
     (if writable w lock_file then w\<lparr>files := (files w)(lock_file := None)\<rparr> else w)"

definition run :: "nat \<Rightarrow> bot \<Rightarrow> world \<Rightarrow> bot \<times> world" where
  "run n b w =
     (case acquire_lock w of
        (w', False) \<Rightarrow> (b, w')
      | (w', True) \<Rightarrow> (case main_loop n b w' of (b'', w'') \<Rightarrow> (b'', release_lock w'')))"

subsection \<open>The chat key as the specification words it\<close>

text \<open>
  The specification's \<open>learn\<close> sanitizes the chat key by removing every character
  outside \<^verbatim>\<open>[A-Za-z0-9 _-]\<close> and falls back to \<^verbatim>\<open>unknown\<close> when nothing is
  left. This definition follows those words, to be compared with
  \<open>safe_chat_id\<close>.
\<close>

definition allowed_key_char :: "char \<Rightarrow> bool" where
  "allowed_key_char c =
     (let n = (of_char c :: nat)
      in (65 \<le> n \<and> n \<le> 90) \<or> (97 \<le> n \<and> n \<le> 122) \<or> (48 \<le> n \<and> n \<le> 57) \<or>
         c = CHR '' '' \<or> c = CHR ''_'' \<or> c = CHR ''-'')"

definition spec_chat_key :: "string \<Rightarrow> string" where
  "spec_chat_key key =
     (let k = filter allowed_key_char key in if k = [] then ''unknown'' else k)"

subsection \<open>Derived notions used to state the properties\<close>

text \<open>
  The list \<open>phrases\<close> that \<^verbatim>\<open>find_similar_phrases\<close> loads for a chat: the
  chat's corpus. It is empty when the file is missing or unreadable.
\<close>

definition corpus :: "world \<Rightarrow> int \<Rightarrow> string list" where
  "corpus w chat_number =
     (case read_file w (words_file chat_number) of
        Inl e \<Rightarrow> []
      | Inr content \<Rightarrow> load_phrases content)"

text \<open>
  An environment with no file, where every file may be read and written, the
  remote API refuses every request, and the random stream is constantly 0.
\<close>

definition fresh_world :: world where
  "fresh_world =
     \<lparr>files = Map.empty, other_paths = (\<lambda>p. False), readable = (\<lambda>p. True),
      writable = (\<lambda>p. True), pid = 4242, ctime = ''Wed Nov  4 21:07:00 2026'',
      http_get = (\<lambda>k r. RequestException), get_log = [],
      post_ok = (\<lambda>c t. True), outbox = [], rand = (\<lambda>k. 0), rand_calls = 0\<rparr>"

section \<open>Verification\<close>

subsection \<open>The table of longest_common_substring\<close>

lemma csl_le: "csl s1 s2 i j \<le> i \<and> csl s1 s2 i j \<le> j"
  by (induction s1 s2 i j rule: csl.induct) auto

lemma csl_match:
  "t < csl s1 s2 i j \<Longrightarrow> s1 ! (i - Suc t) = s2 ! (j - Suc t)"
proof (induction s1 s2 i j arbitrary: t rule: csl.induct)
  case (3 s1 s2 i j)
  then show ?case by (cases t) (auto split: if_splits)
qed auto

lemma csl_ge:
  "\<forall>t < k. s1 ! (a + t) = s2 ! (b + t) \<Longrightarrow> k \<le> csl s1 s2 (a + k) (b + k)"
  by (induction k) auto

lemma csl_slice:
  assumes "i \<le> length s1" "j \<le> length s2"
  shows "take (csl s1 s2 i j) (drop (i - csl s1 s2 i j) s1) =
         take (csl s1 s2 i j) (drop (j - csl s1 s2 i j) s2)"
proof (rule nth_equalityI)
  let ?k = "csl s1 s2 i j"
  have k: "?k \<le> i" "?k \<le> j" using csl_le [of s1 s2 i j] by auto
  show "length (take ?k (drop (i - ?k) s1)) = length (take ?k (drop (j - ?k) s2))"
    using assms k by auto
  fix t assume "t < length (take ?k (drop (i - ?k) s1))"
  then have t: "t < ?k" by simp
  then have "?k - Suc t < ?k" by arith
  from csl_match [OF this] have "s1 ! (i - Suc (?k - Suc t)) = s2 ! (j - Suc (?k - Suc t))" .
  moreover have "i - Suc (?k - Suc t) = i - ?k + t" "j - Suc (?k - Suc t) = j - ?k + t"
    using t k by arith+
  ultimately show "take ?k (drop (i - ?k) s1) ! t = take ?k (drop (j - ?k) s2) ! t"
    using t k assms by simp
qed

lemma lcs_cell_inv:
  assumes "lcs_inv s1 s2 i j st" "1 \<le> i" "i \<le> length s1" "1 \<le> j" "j \<le> length s2"
  shows "lcs_inv s1 s2 i (Suc j) (lcs_cell s1 s2 i j st)"
proof -
  obtain dp ml ep where st: "st = (dp, ml, ep)" by (cases st) auto
  obtain i0 j0 where ij: "i = Suc i0" "j = Suc j0"
    using assms(2,4) by (cases i; cases j) auto
  have vis: "\<And>i' j'. visited i (Suc j) i' j' \<longleftrightarrow> visited i j i' j' \<or> (i' = i \<and> j' = j)"
    by (auto simp: visited_def)
  have nvis: "\<not> visited i j i j" by (simp add: visited_def)
  have pvis: "visited i j i0 j0" by (simp add: visited_def ij)
  have len: "length dp = length s1 + 1" "\<And>r. r \<le> length s1 \<Longrightarrow> length (dp ! r) = length s2 + 1"
    using assms(1) by (auto simp: lcs_inv_def st)
  have cells: "\<And>i' j'. i' \<le> length s1 \<Longrightarrow> j' \<le> length s2 \<Longrightarrow>
      dp ! i' ! j' = (if visited i j i' j' then csl s1 s2 i' j' else 0)"
    using assms(1) by (auto simp: lcs_inv_def st)
  have bound: "\<And>i' j'. i' \<le> length s1 \<Longrightarrow> j' \<le> length s2 \<Longrightarrow> visited i j i' j'
      \<Longrightarrow> csl s1 s2 i' j' \<le> ml"
    using assms(1) by (auto simp: lcs_inv_def st)
  have ep: "ep \<le> length s1" "(ml = 0 \<and> ep = 0) \<or> (\<exists>j' \<le> length s2. csl s1 s2 ep j' = ml)"
    using assms(1) by (auto simp: lcs_inv_def st)
  have prev: "dp ! i0 ! j0 = csl s1 s2 i0 j0"
    using cells [of i0 j0] pvis assms(3,5) ij by simp
  show ?thesis
  proof (cases "s1 ! i0 = s2 ! j0")
    case False
    then have c0: "csl s1 s2 i j = 0" by (simp add: ij)
    have res: "lcs_cell s1 s2 i j st = (dp, ml, ep)"
      using False by (simp add: lcs_cell_def st ij)
    show ?thesis
      unfolding res lcs_inv_def
      using len cells bound ep c0 nvis by (auto simp: vis)
  next
    case True
    then have c1: "csl s1 s2 i j = Suc (csl s1 s2 i0 j0)" by (simp add: ij)
    define dp' where "dp' = dp[i := (dp ! i)[j := Suc (csl s1 s2 i0 j0)]]"
    have len': "length dp' = length s1 + 1" "\<And>r. r \<le> length s1 \<Longrightarrow> length (dp' ! r) = length s2 + 1"
      using len assms(3) by (auto simp: dp'_def nth_list_update)
    have cells': "\<And>i' j'. i' \<le> length s1 \<Longrightarrow> j' \<le> length s2 \<Longrightarrow>
      dp' ! i' ! j' = (if visited i (Suc j) i' j' then csl s1 s2 i' j' else 0)"
      using len cells c1 nvis assms(3,5) by (auto simp: dp'_def nth_list_update vis)
    show ?thesis
    proof (cases "Suc (csl s1 s2 i0 j0) > ml")
      case True
      have res: "lcs_cell s1 s2 i j st = (dp', csl s1 s2 i j, i)"
        using True \<open>s1 ! i0 = s2 ! j0\<close> by (simp add: lcs_cell_def st ij prev dp'_def Let_def)
      have bound': "\<And>i' j'. i' \<le> length s1 \<Longrightarrow> j' \<le> length s2 \<Longrightarrow> visited i (Suc j) i' j'
        \<Longrightarrow> csl s1 s2 i' j' \<le> csl s1 s2 i j"
        using bound True c1 by (fastforce simp: vis)
      show ?thesis
        unfolding res lcs_inv_def
        using len' cells' bound' assms(3,5) by auto
    next
      case False
      have res: "lcs_cell s1 s2 i j st = (dp', ml, ep)"
        using False \<open>s1 ! i0 = s2 ! j0\<close> by (simp add: lcs_cell_def st ij prev dp'_def Let_def)
      have bound': "\<And>i' j'. i' \<le> length s1 \<Longrightarrow> j' \<le> length s2 \<Longrightarrow> visited i (Suc j) i' j'
        \<Longrightarrow> csl s1 s2 i' j' \<le> ml"
        using bound False c1 by (fastforce simp: vis)
      show ?thesis
        unfolding res lcs_inv_def
        using len' cells' bound' ep by auto
    qed
  qed
qed

lemma lcs_row_inv_aux:
  assumes "lcs_inv s1 s2 i 1 st" "1 \<le> i" "i \<le> length s1"
  shows "k \<le> length s2 \<Longrightarrow> lcs_inv s1 s2 i (Suc k) (fold (lcs_cell s1 s2 i) [1..<Suc k] st)"
proof (induction k)
  case 0
  then show ?case using assms(1) by simp
next
  case (Suc k)
  then have "lcs_inv s1 s2 i (Suc k) (fold (lcs_cell s1 s2 i) [1..<Suc k] st)" by simp
  from lcs_cell_inv [OF this assms(2,3)] Suc.prems
  show ?case by simp
qed

lemma lcs_inv_next_row:
  assumes "lcs_inv s1 s2 i (Suc (length s2)) st"
  shows "lcs_inv s1 s2 (Suc i) 1 st"
proof -
  have "\<And>i' j'. j' \<le> length s2 \<Longrightarrow>
     visited (Suc i) 1 i' j' \<longleftrightarrow> visited i (Suc (length s2)) i' j' \<or> (i' = Suc i \<and> j' = 0)"
    by (auto simp: visited_def)
  moreover have "\<And>i'. csl s1 s2 i' 0 = 0" by (case_tac i') auto
  ultimately show ?thesis
    using assms unfolding lcs_inv_def by (cases st) auto
qed

lemma lcs_row_inv:
  assumes "lcs_inv s1 s2 i 1 st" "1 \<le> i" "i \<le> length s1"
  shows "lcs_inv s1 s2 (Suc i) 1 (lcs_row s1 s2 i st)"
  unfolding lcs_row_def
  by (rule lcs_inv_next_row) (rule lcs_row_inv_aux [OF assms], simp)

lemma lcs_init_inv: "lcs_inv s1 s2 1 1 (lcs_init s1 s2)"
proof -
  have "\<And>i' j'. visited 1 1 i' j' \<Longrightarrow> csl s1 s2 i' j' = 0"
    by (case_tac i'; case_tac j') (auto simp: visited_def)
  then show ?thesis
    unfolding lcs_inv_def lcs_init_def by (auto simp del: replicate_Suc)
qed

lemma lcs_rows_inv:
  "k \<le> length s1 \<Longrightarrow>
   lcs_inv s1 s2 (Suc k) 1 (fold (lcs_row s1 s2) [1..<Suc k] (lcs_init s1 s2))"
proof (induction k)
  case 0
  then show ?case using lcs_init_inv [of s1 s2] by simp
next
  case (Suc k)
  then have "lcs_inv s1 s2 (Suc k) 1 (fold (lcs_row s1 s2) [1..<Suc k] (lcs_init s1 s2))" by simp
  from lcs_row_inv [OF this] Suc.prems
  show ?case by simp
qed

lemma lcs_table_inv: "lcs_inv s1 s2 (Suc (length s1)) 1 (lcs_table s1 s2)"
  unfolding lcs_table_def by (rule lcs_rows_inv) simp


lemma lcs_table_bounds:
  assumes "lcs_table s1 s2 = (dp, ml, ep)"
  shows "ml \<le> ep \<and> ep \<le> length s1"
proof -
  have "lcs_inv s1 s2 (Suc (length s1)) 1 (dp, ml, ep)"
    using lcs_table_inv [of s1 s2] assms by simp
  then show ?thesis
    using csl_le [of s1 s2 ep] by (auto simp: lcs_inv_def)
qed

lemma lcs_sublist_left: "sublist (longest_common_substring s1 s2) s1"
proof -
  have "sublist (take k (drop a s1)) s1" for k a
    by (rule sublist_order.order_trans [OF sublist_take sublist_drop])
  then show ?thesis
    by (auto simp: longest_common_substring_def split: prod.splits)
qed

lemma lcs_sublist_right: "sublist (longest_common_substring s1 s2) s2"
proof -
  obtain dp ml ep where t: "lcs_table s1 s2 = (dp, ml, ep)" by (cases "lcs_table s1 s2") auto
  have inv: "lcs_inv s1 s2 (Suc (length s1)) 1 (dp, ml, ep)"
    using lcs_table_inv [of s1 s2] t by simp
  show ?thesis
  proof (cases "ml > 0")
    case False
    then show ?thesis by (simp add: longest_common_substring_def t)
  next
    case True
    with inv obtain j' where j': "j' \<le> length s2" "csl s1 s2 ep j' = ml" "ep \<le> length s1"
      by (auto simp: lcs_inv_def)
    from csl_slice [OF j'(3) j'(1)] j'(2)
    have "take ml (drop (ep - ml) s1) = take ml (drop (j' - ml) s2)" by simp
    moreover have "sublist (take ml (drop (j' - ml) s2)) s2"
      by (rule sublist_order.order_trans [OF sublist_take sublist_drop])
    ultimately show ?thesis using True by (simp add: longest_common_substring_def t)
  qed
qed

lemma lcs_length: "lcs_table s1 s2 = (dp, ml, ep) \<Longrightarrow> length (longest_common_substring s1 s2) = ml"
  using lcs_table_bounds [of s1 s2 dp ml ep]
  by (auto simp: longest_common_substring_def)

lemma lcs_maximal:
  assumes "sublist w s1" "sublist w s2"
  shows "length w \<le> length (longest_common_substring s1 s2)"
proof -
  obtain dp ml ep where t: "lcs_table s1 s2 = (dp, ml, ep)" by (cases "lcs_table s1 s2") auto
  have inv: "lcs_inv s1 s2 (Suc (length s1)) 1 (dp, ml, ep)"
    using lcs_table_inv [of s1 s2] t by simp
  from assms obtain p1 q1 p2 q2 where s: "s1 = p1 @ w @ q1" "s2 = p2 @ w @ q2"
    by (auto simp: sublist_def)
  have "\<forall>t < length w. s1 ! (length p1 + t) = s2 ! (length p2 + t)"
    by (simp add: s nth_append)
  from csl_ge [OF this]
  have "length w \<le> csl s1 s2 (length p1 + length w) (length p2 + length w)" .
  also have "\<dots> \<le> ml"
    using inv by (auto simp: lcs_inv_def visited_def s)
  finally show ?thesis by (simp add: lcs_length [OF t])
qed

lemma lcs_empty_iff: "length (longest_common_substring a b) = 0 \<longleftrightarrow> set a \<inter> set b = {}"
proof
  assume l: "length (longest_common_substring a b) = 0"
  show "set a \<inter> set b = {}"
  proof (rule ccontr)
    assume "set a \<inter> set b \<noteq> {}"
    then obtain x where x: "x \<in> set a" "x \<in> set b" by auto
    then have "sublist [x] a" "sublist [x] b"
      by (auto simp: sublist_def dest!: split_list)
    from lcs_maximal [OF this] l show False by simp
  qed
next
  assume d: "set a \<inter> set b = {}"
  show "length (longest_common_substring a b) = 0"
  proof (rule ccontr)
    assume "length (longest_common_substring a b) \<noteq> 0"
    then obtain x where "x \<in> set (longest_common_substring a b)"
      by (cases "longest_common_substring a b") auto
    with set_mono_sublist [OF lcs_sublist_left [of a b]]
         set_mono_sublist [OF lcs_sublist_right [of a b]] d
    show False by auto
  qed
qed

lemma lcs_length_commute:
  "length (longest_common_substring a b) = length (longest_common_substring b a)"
  by (rule antisym)
     (simp_all add: lcs_maximal lcs_sublist_left lcs_sublist_right)

text \<open>
  C1. For all strings \<open>a\<close> and \<open>b\<close>, \<open>longest_common_substring a b\<close> is a
  contiguous substring of \<open>a\<close> and of \<open>b\<close>; no contiguous substring common to
  both is longer; its length is 0 exactly when \<open>a\<close> and \<open>b\<close> share no
  character; and the results for \<open>(a, b)\<close> and \<open>(b, a)\<close> have the same length.
\<close>

theorem longest_common_substring_correct:
  "sublist (longest_common_substring a b) a \<and>
   sublist (longest_common_substring a b) b \<and>
   (\<forall>w. sublist w a \<and> sublist w b \<longrightarrow>
        length w \<le> length (longest_common_substring a b)) \<and>
   (length (longest_common_substring a b) = 0 \<longleftrightarrow> set a \<inter> set b = {}) \<and>
   length (longest_common_substring a b) = length (longest_common_substring b a)"
  using lcs_sublist_left [of a b] lcs_sublist_right [of a b] lcs_maximal [of _ a b]
        lcs_empty_iff [of a b] lcs_length_commute [of a b]
  by blast

theorem longest_common_substring_correct_witness:
  "sublist ''ello'' ''hello'' \<and> sublist ''ello'' ''yellow'' \<and>
   length ''ello'' \<le> length (longest_common_substring ''hello'' ''yellow'')"
proof -
  have l: "sublist ''ello'' ''hello''" by (simp add: sublist_Cons_right)
  have r: "sublist ''ello'' ''yellow''" by (simp add: sublist_Cons_right)
  from longest_common_substring_correct [of "''hello''" "''yellow''"] l r
  show ?thesis by blast
qed

subsection \<open>The matcher\<close>

lemma scan_phrase_words_eq:
  "scan_phrase_words p mw pws matched =
     (if \<exists>pw \<in> set pws. similar_word mw pw then matched @ [p] else matched)"
  by (induction pws) auto

lemma scan_message_words_cases:
  "scan_message_words p pws mws matched = matched \<or>
   scan_message_words p pws mws matched = matched @ [p]"
  by (induction mws) (auto simp: scan_phrase_words_eq Let_def)

lemma scan_message_words_miss:
  "\<not> (\<exists>mw \<in> set mws. \<exists>pw \<in> set pws. similar_word mw pw) \<Longrightarrow>
   scan_message_words p pws mws matched = matched"
  by (induction mws) (auto simp: scan_phrase_words_eq Let_def)

lemma scan_message_words_hit:
  "\<exists>mw \<in> set mws. \<exists>pw \<in> set pws. similar_word mw pw \<Longrightarrow>
   p \<in> set (scan_message_words p pws mws matched)"
  by (induction mws) (auto simp: scan_phrase_words_eq Let_def)

lemma set_match_phrase:
  "set (match_phrase mws p matched) =
     set matched \<union> (if \<exists>mw \<in> set mws. \<exists>pw \<in> set (clean_words p). similar_word mw pw
                    then {p} else {})"
proof (cases "\<exists>mw \<in> set mws. \<exists>pw \<in> set (clean_words p). similar_word mw pw")
  case True
  from scan_message_words_hit [OF this, of p matched]
       scan_message_words_cases [of p "clean_words p" mws matched]
  show ?thesis using True unfolding match_phrase_def by auto
next
  case False
  from scan_message_words_miss [OF this]
  show ?thesis using False unfolding match_phrase_def by auto
qed

lemma set_fold_match_phrase:
  "set (fold (match_phrase mws) phrases matched) =
     set matched \<union> {p \<in> set phrases. \<exists>mw \<in> set mws. \<exists>pw \<in> set (clean_words p). similar_word mw pw}"
  by (induction phrases arbitrary: matched) (auto simp: set_match_phrase)

lemma set_matched_phrases:
  "set (matched_phrases message phrases) =
     {p \<in> set phrases. \<exists>mw \<in> set (clean_words message). \<exists>pw \<in> set (clean_words p).
                          similar_word mw pw}"
  unfolding matched_phrases_def by (simp add: set_fold_match_phrase)

lemma matched_phrases_snoc:
  "matched_phrases message (phrases @ [p]) =
     match_phrase (clean_words message) p (matched_phrases message phrases)"
  by (simp add: matched_phrases_def)

lemma lcs_self: "longest_common_substring w w = w"
proof -
  let ?r = "longest_common_substring w w"
  have le: "length w \<le> length ?r"
    by (rule lcs_maximal) simp_all
  obtain ps ss where w: "w = ps @ ?r @ ss"
    using lcs_sublist_left [of w w] by (auto simp: sublist_def)
  then have "length w = length ps + length ?r + length ss"
    by (metis length_append add.assoc)
  with le have "ps = [] \<and> ss = []" by simp
  with w show ?thesis by simp
qed

lemma similar_word_refl: "similar_word w w"
  by (simp add: similar_word_def lcs_self)

lemma matched_phrases_Nil: "matched_phrases message [] = []"
  by (simp add: matched_phrases_def)

lemma find_similar_phrases_eq:
  "find_similar_phrases message chat_number w =
     (let matched = matched_phrases message (corpus w chat_number)
      in if matched = [] then (w, None)
         else (w\<lparr>rand_calls := rand_calls w + 1\<rparr>,
               Some (matched ! (rand w (rand_calls w) mod length matched))))"
  by (auto simp: find_similar_phrases_def corpus_def read_file_def os_path_exists_def
        random_choice_def matched_phrases_Nil Let_def split: option.splits sum.splits)

lemma find_similar_phrases_Some:
  "(\<exists>p. snd (find_similar_phrases message chat_number w) = Some p) \<longleftrightarrow>
   matched_phrases message (corpus w chat_number) \<noteq> []"
  by (simp add: find_similar_phrases_eq Let_def)

text \<open>
  C2. Whenever the corpus of a chat contains the phrase \<open>hello world\<close> (as it
  does after \<^verbatim>\<open>/learn hello world\<close>), the message \<open>hello\<close> has a non-empty
  qualifying list in \<^verbatim>\<open>find_similar_phrases\<close>, which holds that phrase, and
  the call returns a phrase: the word \<open>hello\<close> of the message is the word
  \<open>hello\<close> of the phrase, and a word is similar to itself (lemma
  \<open>similar_word_refl\<close>: the common substring is the whole word, 100 per cent of
  its length).
\<close>

theorem hello_finds_hello_world:
  assumes "''hello world'' \<in> set (corpus w chat_number)"
  shows "''hello world'' \<in> set (matched_phrases ''hello'' (corpus w chat_number)) \<and>
         (\<exists>p. snd (find_similar_phrases ''hello'' chat_number w) = Some p)"
proof -
  have m: "clean_words ''hello'' = [''hello'']" by code_simp
  have p: "clean_words ''hello world'' = [''hello'', ''world'']" by code_simp
  have "similar_word ''hello'' ''hello''" by (rule similar_word_refl)
  with assms have "''hello world'' \<in> set (matched_phrases ''hello'' (corpus w chat_number))"
    by (simp add: set_matched_phrases m p)
  moreover from this have "matched_phrases ''hello'' (corpus w chat_number) \<noteq> []" by auto
  ultimately show ?thesis by (simp add: find_similar_phrases_Some)
qed

theorem hello_finds_hello_world_witness:
  "''hello world'' \<in> set (corpus (fst (process_message ''/learn hello world'' ''A'' 1 fresh_world)) 1) \<and>
   snd (find_similar_phrases ''hello'' 1
          (fst (process_message ''/learn hello world'' ''A'' 1 fresh_world))) \<noteq> None"
proof -
  have h: "''hello world'' \<in> set (corpus (fst (process_message ''/learn hello world'' ''A'' 1 fresh_world)) 1)"
    by code_simp
  from hello_finds_hello_world [OF h] h show ?thesis by auto
qed

text \<open>
  C7. Appending one phrase to a corpus only extends the qualifying list of a
  message: the list for the old corpus is a prefix of the list for the new one,
  so every phrase that qualified still does.
\<close>

theorem matching_monotonic:
  "prefix (matched_phrases message phrases) (matched_phrases message (phrases @ [p])) \<and>
   set (matched_phrases message phrases) \<subseteq> set (matched_phrases message (phrases @ [p]))"
  using scan_message_words_cases [of p "clean_words p" "clean_words message" "matched_phrases message phrases"]
  by (auto simp: matched_phrases_snoc match_phrase_def)

theorem matching_monotonic_witness:
  "set (matched_phrases ''hello there'' [''hello world'', ''zzz'']) \<subseteq>
   set (matched_phrases ''hello there'' ([''hello world'', ''zzz''] @ [''there is''])) \<and>
   matched_phrases ''hello there'' [''hello world'', ''zzz''] = [''hello world'']"
proof -
  have "matched_phrases ''hello there'' [''hello world'', ''zzz''] = [''hello world'']"
    by code_simp
  with matching_monotonic [of "''hello there''" "[''hello world'', ''zzz'']" "''there is''"]
  show ?thesis by simp
qed

subsection \<open>Routing of commands\<close>

lemma of_char_lower_char:
  "(of_char (lower_char c) :: nat) =
     (if (65 \<le> (of_char c :: nat) \<and> (of_char c :: nat) \<le> 90) \<or>
         (192 \<le> (of_char c :: nat) \<and> (of_char c :: nat) \<le> 222 \<and> (of_char c :: nat) \<noteq> 215)
      then of_char c + 32 else of_char c)"
  by (auto simp: lower_char_def Let_def)

lemma lower_char_fixed:
  assumes "lower_char c = d" "(of_char d :: nat) < 97"
  shows "c = d"
proof -
  have "(of_char (lower_char c) :: nat) = of_char d" using assms(1) by simp
  then have "(of_char c :: nat) = of_char d"
    using assms(2) by (auto simp: of_char_lower_char split: if_splits)
  then show ?thesis by simp
qed

lemma lower_learn:
  assumes "lower cmd = ''/learn''"
  shows "CHR '' '' \<notin> set cmd" "prefix ''/'' cmd"
proof -
  show "CHR '' '' \<notin> set cmd"
  proof
    assume "CHR '' '' \<in> set cmd"
    then have "lower_char CHR '' '' \<in> set (lower cmd)" by (auto simp: lower_def)
    moreover have "lower_char CHR '' '' = CHR '' ''" by code_simp
    ultimately show False using assms by simp
  qed
  from assms obtain c cs where c: "cmd = c # cs" "lower_char c = CHR ''/''"
    by (cases cmd) (auto simp: lower_def)
  from lower_char_fixed [OF c(2)] have "c = CHR ''/''" by simp
  with c show "prefix ''/'' cmd" by simp
qed

lemma split_space1_cut:
  assumes "CHR '' '' \<notin> set a"
  shows "split_space1 (a @ CHR '' '' # r) = [a, r]"
proof -
  have "dropWhile (\<lambda>c. c \<noteq> CHR '' '') (a @ CHR '' '' # r) = CHR '' '' # r"
    using assms by (induction a) auto
  moreover have "takeWhile (\<lambda>c. c \<noteq> CHR '' '') (a @ CHR '' '' # r) = a"
    using assms by (induction a) auto
  ultimately show ?thesis by (simp add: split_space1_def)
qed

lemma replace_absent: "a \<notin> set s \<Longrightarrow> replace (a # old) new s = s"
  by (induction s) auto

lemma strip_spaces:
  assumes "\<forall>c \<in> set s. is_space c"
  shows "strip s = []"
proof -
  have d: "dropWhile is_space s = []" using assms by (simp add: dropWhile_eq_Nil_conv)
  have "strip s = rstrip []" unfolding strip_def by (simp only: d)
  then show ?thesis by (simp add: rstrip_def)
qed

lemma learn_blank:
  assumes "\<forall>c \<in> set rest. is_space c"
  shows "learn_phrase rest chat_number w = w"
proof -
  have "\<not> is_space CHR ''/''" by code_simp
  with assms have "CHR ''/'' \<notin> set rest" by auto
  then have "replace ''/learn'' [] rest = rest" by (rule replace_absent)
  with assms show ?thesis by (simp add: learn_phrase_def strip_spaces)
qed

text \<open>
  C10, as the code has it. A message made of the command \<^verbatim>\<open>/learn\<close> (in
  any case), the space character at which \<^verbatim>\<open>message.split(' ', 1)\<close> cuts,
  and a remainder of white space only (possibly empty) is answered with
  \<open>Phrase learned!\<close>, although \<^verbatim>\<open>learn_phrase\<close> stores nothing: the
  environment, and with it the corpus, is unchanged.
\<close>

theorem learn_blank_still_confirms:
  assumes "lower cmd = ''/learn''" and "\<forall>c \<in> set rest. is_space c"
  shows "process_message (cmd @ CHR '' '' # rest) chat_name chat_number w =
           (w, Some ''Phrase learned!'') \<and>
         learn_phrase rest chat_number w = w \<and>
         corpus (fst (process_message (cmd @ CHR '' '' # rest) chat_name chat_number w))
           chat_number = corpus w chat_number"
proof -
  note l = lower_learn [OF assms(1)]
  have p: "prefix ''/'' (cmd @ CHR '' '' # rest)" using l(2) by (auto simp: prefix_def)
  have s: "split_space1 (cmd @ CHR '' '' # rest) = [cmd, rest]"
    by (rule split_space1_cut [OF l(1)])
  have "process_message (cmd @ CHR '' '' # rest) chat_name chat_number w =
           (w, Some ''Phrase learned!'')"
    unfolding process_message_def using p by (simp add: s assms(1) learn_blank [OF assms(2)])
  then show ?thesis by (simp add: learn_blank [OF assms(2)])
qed

theorem learn_blank_still_confirms_witness:
  "lower ''/Learn'' = ''/learn'' \<and> is_space CHR '' '' \<and> is_space (CHR 0x09) \<and>
   process_message (''/Learn'' @ CHR '' '' # [CHR '' '', CHR 0x09]) ''A'' 1 fresh_world =
     (fresh_world, Some ''Phrase learned!'')"
proof -
  have a: "lower ''/Learn'' = ''/learn''" by code_simp
  have s: "is_space CHR '' ''" "is_space (CHR 0x09)" by code_simp+
  then have b: "\<forall>c \<in> set [CHR '' '', CHR 0x09]. is_space c" by simp
  from learn_blank_still_confirms [OF a b, of "''A''" 1 fresh_world] a s
  show ?thesis by simp
qed

text \<open>
  C10, as stated, fails when the white space after \<^verbatim>\<open>/learn\<close> does not
  begin with a space character: for \<^verbatim>\<open>/learn\<close> followed by a tab,
  \<^verbatim>\<open>split(' ', 1)\<close> does not cut, the command is not \<^verbatim>\<open>/learn\<close>, and
  the message goes to the matcher. There is no reply on an empty corpus, and
  after \<^verbatim>\<open>/learn learn more\<close> the reply is \<open>learn more\<close>.
\<close>

theorem learn_tab_not_confirmed_counterexample:
  "is_space (CHR 0x09) \<and>
   snd (process_message (''/learn'' @ [CHR 0x09]) ''A'' 1 fresh_world) = None \<and>
   snd (process_message (''/learn'' @ [CHR 0x09]) ''A'' 1
          (fst (process_message ''/learn learn more'' ''A'' 1 fresh_world))) =
     Some ''learn more''"
  by code_simp

lemma files_find_similar_phrases:
  "files (fst (find_similar_phrases message chat_number w)) = files w"
  by (simp add: find_similar_phrases_eq Let_def)

text \<open>
  C6, as the code has it. A message that starts with \<open>/\<close> and whose command is
  none of \<^verbatim>\<open>/help\<close>, \<^verbatim>\<open>/start\<close>, \<^verbatim>\<open>/stop\<close>, \<^verbatim>\<open>/learn\<close> is
  handed, whole, to \<^verbatim>\<open>find_similar_phrases\<close>, whose result is the result of
  \<^verbatim>\<open>process_message\<close>: there is no reply exactly when no phrase of the
  chat's corpus qualifies for the message. No file changes.
\<close>

theorem unknown_command_goes_to_matcher:
  assumes "prefix ''/'' message"
      and "lower (hd (split_space1 message)) \<notin> {''/help'', ''/start'', ''/stop'', ''/learn''}"
  shows "process_message message chat_name chat_number w =
           find_similar_phrases message chat_number w \<and>
         (snd (process_message message chat_name chat_number w) = None \<longleftrightarrow>
            matched_phrases message (corpus w chat_number) = []) \<and>
         files (fst (process_message message chat_name chat_number w)) = files w"
proof -
  have "process_message message chat_name chat_number w =
           find_similar_phrases message chat_number w"
    using assms by (simp add: process_message_def Let_def)
  moreover have "snd (find_similar_phrases message chat_number w) = None \<longleftrightarrow>
            matched_phrases message (corpus w chat_number) = []"
    using find_similar_phrases_Some [of message chat_number w] by auto
  ultimately show ?thesis by (simp add: files_find_similar_phrases)
qed

theorem unknown_command_goes_to_matcher_witness:
  "prefix ''/'' ''/foo'' \<and>
   lower (hd (split_space1 ''/foo'')) \<notin> {''/help'', ''/start'', ''/stop'', ''/learn''} \<and>
   process_message ''/foo'' ''A'' 1 fresh_world = find_similar_phrases ''/foo'' 1 fresh_world"
proof -
  have a: "prefix ''/'' ''/foo''" by simp
  have b: "lower (hd (split_space1 ''/foo'')) \<notin> {''/help'', ''/start'', ''/stop'', ''/learn''}"
    by code_simp
  from unknown_command_goes_to_matcher [OF a b, of "''A''" 1 fresh_world] a b
  show ?thesis by simp
qed

text \<open>
  C6, as stated, fails: after \<^verbatim>\<open>/learn foo bar\<close>, the unknown command
  \<^verbatim>\<open>/foo\<close> is answered with \<open>foo bar\<close>.
\<close>

theorem unknown_command_replies_counterexample:
  "prefix ''/'' ''/foo'' \<and>
   lower (hd (split_space1 ''/foo'')) \<notin> {''/help'', ''/start'', ''/stop'', ''/learn''} \<and>
   snd (process_message ''/foo'' ''A'' 1
          (fst (process_message ''/learn foo bar'' ''A'' 1 fresh_world))) = Some ''foo bar''"
  by code_simp

subsection \<open>The phrase store\<close>

lemma replace_single: "replace [a] [] s = filter (\<lambda>c. c \<noteq> a) s"
  by (induction s) auto

lemma digit_char_neq:
  assumes "d < 10"
  shows "digit_char d \<noteq> CHR ''+''" "digit_char d \<noteq> CHR ''-''"
proof -
  have "(of_char (digit_char d) :: nat) = 48 + d"
    using assms by (simp add: digit_char_def)
  then show "digit_char d \<noteq> CHR ''+''" "digit_char d \<noteq> CHR ''-''" by auto
qed

lemma str_nat_digits: "c \<in> set (str_nat n) \<Longrightarrow> c \<noteq> CHR ''+'' \<and> c \<noteq> CHR ''-''"
proof (induction n rule: str_nat.induct)
  case (1 n)
  show ?case
  proof (cases "n < 10")
    case True
    with 1 show ?thesis using digit_char_neq [of n] by (auto simp: str_nat.simps [of n])
  next
    case False
    with 1 show ?thesis using digit_char_neq [of "n mod 10"]
      by (auto simp: str_nat.simps [of n])
  qed
qed

lemma str_nat_nonempty: "str_nat n \<noteq> []"
  by (subst str_nat.simps) simp

lemma filter_str_nat: "filter (\<lambda>c. c \<noteq> a) (str_nat n) = str_nat n" if "a = CHR ''+'' \<or> a = CHR ''-''"
  using that str_nat_digits [of _ n] by (auto simp: filter_id_conv)

lemma safe_chat_id_eq: "safe_chat_id n = str_nat (nat \<bar>n\<bar>)"
proof (cases "n < 0")
  case True
  then have "nat (- n) = nat \<bar>n\<bar>" by simp
  with True show ?thesis
    by (simp add: safe_chat_id_def str_int_def replace_single filter_str_nat)
next
  case False
  then have "nat n = nat \<bar>n\<bar>" by simp
  with False show ?thesis
    by (simp add: safe_chat_id_def str_int_def replace_single filter_str_nat)
qed

lemma files_append_file:
  "append_file w path data = Inr w' \<Longrightarrow>
   files w' = (files w)(path \<mapsto> (case files w path of None \<Rightarrow> [] | Some c \<Rightarrow> c) @ data)"
  by (auto simp: append_file_def split: if_splits)

lemma learn_phrase_eq:
  "learn_phrase phrase chat_number w =
     (let p = strip (replace ''/learn'' [] phrase)
      in if p \<noteq> [] \<and> writable w (words_file chat_number)
         then w\<lparr>files := (files w)(words_file chat_number \<mapsto>
                (case files w (words_file chat_number) of None \<Rightarrow> [] | Some c \<Rightarrow> c)
                @ p @ [LF])\<rparr>
         else w)"
  by (simp add: learn_phrase_def append_file_def Let_def)

text \<open>
  C4, as the code has it. The key under which \<^verbatim>\<open>learn_phrase\<close> stores a
  phrase is the decimal rendering of the chat number without its sign (the
  characters \<open>+\<close> and \<open>-\<close> are removed, nothing else is filtered). The key is
  never empty, so no fallback key exists or is needed. \<^verbatim>\<open>learn_phrase\<close>
  touches no file but \<^verbatim>\<open>dict/<key>_words.dat\<close>, and creates or extends that
  one when the phrase is not blank and the file can be opened.
\<close>

theorem chat_key_is_digits:
  "safe_chat_id chat_number = str_nat (nat \<bar>chat_number\<bar>) \<and>
   safe_chat_id chat_number \<noteq> [] \<and>
   (\<forall>path. path \<noteq> ''dict/'' @ str_nat (nat \<bar>chat_number\<bar>) @ ''_words.dat'' \<longrightarrow>
      files (learn_phrase phrase chat_number w) path = files w path) \<and>
   (strip (replace ''/learn'' [] phrase) \<noteq> [] \<and>
    writable w (''dict/'' @ str_nat (nat \<bar>chat_number\<bar>) @ ''_words.dat'') \<longrightarrow>
      files (learn_phrase phrase chat_number w)
        (''dict/'' @ str_nat (nat \<bar>chat_number\<bar>) @ ''_words.dat'') \<noteq> None)"
  by (simp add: safe_chat_id_eq str_nat_nonempty learn_phrase_eq words_file_def Let_def)

theorem chat_key_is_digits_witness:
  "''dict/-5_words.dat'' \<noteq> ''dict/'' @ str_nat (nat \<bar>- 5\<bar>) @ ''_words.dat'' \<and>
   files (learn_phrase ''hi'' (- 5) fresh_world) ''dict/-5_words.dat'' = None \<and>
   strip (replace ''/learn'' [] ''hi'') \<noteq> [] \<and>
   writable fresh_world (''dict/'' @ str_nat (nat \<bar>- 5\<bar>) @ ''_words.dat'') \<and>
   files (learn_phrase ''hi'' (- 5) fresh_world)
     (''dict/'' @ str_nat (nat \<bar>- 5\<bar>) @ ''_words.dat'') \<noteq> None"
proof -
  have a: "''dict/-5_words.dat'' \<noteq> ''dict/'' @ str_nat (nat \<bar>- 5\<bar>) @ ''_words.dat''"
    by code_simp
  have b: "strip (replace ''/learn'' [] ''hi'') \<noteq> []" by code_simp
  have c: "writable fresh_world (''dict/'' @ str_nat (nat \<bar>- 5\<bar>) @ ''_words.dat'')"
    by (simp add: fresh_world_def)
  have d: "files fresh_world ''dict/-5_words.dat'' = None" by (simp add: fresh_world_def)
  from chat_key_is_digits [of "- 5" "''hi''" fresh_world] a b c d
  show ?thesis by metis
qed

text \<open>
  C4, as stated, fails for the chat number \<open>-5\<close>: the allow-list of the
  specification keeps the minus sign (key \<open>-5\<close>), the code drops it (key
  \<open>5\<close>), and the phrase is stored in \<^verbatim>\<open>dict/5_words.dat\<close>.
\<close>

theorem chat_key_counterexample:
  "safe_chat_id (- 5) = ''5'' \<and> spec_chat_key (str_int (- 5)) = ''-5'' \<and>
   files (learn_phrase ''hi'' (- 5) fresh_world)
     (''dict/'' @ spec_chat_key (str_int (- 5)) @ ''_words.dat'') = None \<and>
   files (learn_phrase ''hi'' (- 5) fresh_world) ''dict/5_words.dat'' = Some (''hi'' @ [LF])"
  by code_simp

lemma CR_neq_LF: "CR \<noteq> LF" by (simp add: CR_def LF_def)

lemma is_space_LF: "is_space LF" by (simp add: is_space_def LF_def)

lemma universal_newlines_id: "CR \<notin> set s \<Longrightarrow> universal_newlines s = s"
  by (induction s rule: universal_newlines.induct) auto

lemma universal_newlines_append:
  "xs = [] \<or> last xs \<noteq> CR \<Longrightarrow>
   universal_newlines (xs @ ys) = universal_newlines xs @ universal_newlines ys"
proof (induction xs rule: universal_newlines.induct)
  case 1
  then show ?case by simp
next
  case (2 c)
  then show ?case by (cases ys) auto
next
  case (3 c d cs)
  then show ?case by (cases cs) (auto split: if_splits)
qed

lemma universal_newlines_last:
  "s \<noteq> [] \<Longrightarrow> last s = LF \<Longrightarrow> universal_newlines s \<noteq> [] \<and> last (universal_newlines s) = LF"
proof (induction s rule: universal_newlines.induct)
  case 1
  then show ?case by simp
next
  case (2 c)
  then show ?case using CR_neq_LF by auto
next
  case (3 c d cs)
  then show ?case using CR_neq_LF by (cases cs) (auto split: if_splits)
qed

lemma lines_acc_append:
  "xs \<noteq> [] \<Longrightarrow> last xs = LF \<Longrightarrow> lines_acc cur (xs @ ys) = lines_acc cur xs @ lines_acc [] ys"
proof (induction xs arbitrary: cur)
  case Nil
  then show ?case by simp
next
  case (Cons c cs)
  then show ?case by (cases "cs = []") auto
qed

lemma lines_acc_single: "LF \<notin> set p \<Longrightarrow> lines_acc cur (p @ [LF]) = [cur @ p @ [LF]]"
  by (induction p arbitrary: cur) auto

lemma file_lines_append:
  assumes "xs = [] \<or> last xs = LF"
  shows "file_lines (xs @ ys) = file_lines xs @ file_lines ys"
proof (cases "xs = []")
  case True
  then show ?thesis by (simp add: file_lines_def)
next
  case False
  with assms lines_acc_append [of xs "[]" ys] show ?thesis by (simp add: file_lines_def)
qed

lemma strip_ends:
  assumes "strip q \<noteq> []"
  shows "\<not> is_space (hd (strip q))" "\<not> is_space (last (strip q))"
proof -
  let ?d = "dropWhile is_space q"
  let ?e = "dropWhile is_space (rev ?d)"
  have p: "strip q = rev ?e" by (simp add: strip_def rstrip_def)
  with assms have e: "?e \<noteq> []" by simp
  then have "\<not> is_space (hd ?e)" by (rule hd_dropWhile)
  then show "\<not> is_space (last (strip q))" using e by (simp add: p last_rev)
  have d: "?d \<noteq> []"
  proof
    assume "?d = []"
    then have "?e = []" by (simp only: rev.simps dropWhile.simps)
    with e show False by simp
  qed
  then have hd: "\<not> is_space (hd ?d)" by (rule hd_dropWhile)
  have "suffix ?e (rev ?d)" by (rule suffix_dropWhile)
  then obtain zs where "rev ?d = zs @ ?e" by (auto simp: suffix_def)
  then have "last (rev ?d) = last ?e" using e by (metis last_appendR)
  then have "hd (strip q) = hd ?d" using d e by (simp add: p hd_rev last_rev)
  with hd show "\<not> is_space (hd (strip q))" by simp
qed

lemma strip_line:
  assumes "p \<noteq> []" "\<not> is_space (hd p)" "\<not> is_space (last p)"
  shows "strip (p @ [LF]) = p"
proof -
  have "dropWhile is_space (p @ [LF]) = p @ [LF]"
    using assms(1,2) by (cases p) auto
  moreover have "dropWhile is_space (rev p) = rev p"
    using assms(1,3) by (cases "rev p") (auto simp: last_rev [symmetric] simp del: last_rev)
  ultimately show ?thesis by (simp add: strip_def rstrip_def is_space_LF)
qed

lemma load_phrases_append_line:
  assumes "content = [] \<or> last content = LF"
      and "strip q \<noteq> []" and "LF \<notin> set (strip q)" and "CR \<notin> set (strip q)"
  shows "load_phrases (universal_newlines (content @ strip q @ [LF])) =
         load_phrases (universal_newlines content) @ [strip q]"
proof -
  let ?p = "strip q"
  have "universal_newlines (?p @ [LF]) = ?p @ [LF]"
    using assms(4) CR_neq_LF by (simp add: universal_newlines_id)
  moreover have "content = [] \<or> last content \<noteq> CR" using assms(1) CR_neq_LF by auto
  ultimately have u: "universal_newlines (content @ ?p @ [LF]) =
      universal_newlines content @ ?p @ [LF]"
    by (simp add: universal_newlines_append)
  have e: "universal_newlines content = [] \<or> last (universal_newlines content) = LF"
  proof (cases "content = []")
    case True
    then show ?thesis by simp
  next
    case False
    with assms(1) universal_newlines_last [of content] show ?thesis by simp
  qed
  have "file_lines (universal_newlines content @ ?p @ [LF]) =
        file_lines (universal_newlines content) @ [?p @ [LF]]"
    using file_lines_append [OF e] lines_acc_single [OF assms(3), of "[]"]
    by (simp add: file_lines_def)
  moreover have "strip (?p @ [LF]) = ?p"
    using strip_line [OF assms(2)] strip_ends [OF assms(2)] by simp
  ultimately show ?thesis using assms(2) by (simp add: load_phrases_def u)
qed

lemma replace_no_occurrence: "\<not> sublist (a # old) s \<Longrightarrow> replace (a # old) new s = s"
proof (induction s)
  case Nil
  then show ?case by simp
next
  case (Cons c cs)
  then have "\<not> prefix (a # old) (c # cs)" "\<not> sublist (a # old) cs"
    by (auto simp: sublist_Cons_right)
  with Cons show ?case by auto
qed


text \<open>
  C5, as the code has it. Let \<open>p\<close> be the phrase with every occurrence of
  \<^verbatim>\<open>/learn\<close> removed and then trimmed. If \<open>p\<close> is empty,
  \<^verbatim>\<open>learn_phrase\<close> changes nothing. If \<open>p\<close> is not empty and the corpus file
  can be opened for appending, \<^verbatim>\<open>learn_phrase\<close> appends \<open>p\<close> and a newline
  to the end of the file and changes nothing else; when moreover the file is
  readable, held complete lines only, and \<open>p\<close> has no line break, the corpus
  gains exactly one phrase, \<open>p\<close>, at its end. For a phrase without the text
  \<^verbatim>\<open>/learn\<close>, \<open>p\<close> is the trimmed phrase.
\<close>

theorem learn_phrase_appends:
  "(strip (replace ''/learn'' [] phrase) = [] \<longrightarrow> learn_phrase phrase chat_number w = w) \<and>
   (strip (replace ''/learn'' [] phrase) \<noteq> [] \<and> writable w (words_file chat_number) \<longrightarrow>
      learn_phrase phrase chat_number w =
        w\<lparr>files := (files w)(words_file chat_number \<mapsto>
             (case files w (words_file chat_number) of None \<Rightarrow> [] | Some c \<Rightarrow> c) @
             strip (replace ''/learn'' [] phrase) @ [LF])\<rparr>) \<and>
   (strip (replace ''/learn'' [] phrase) \<noteq> [] \<and> writable w (words_file chat_number) \<and>
    readable w (words_file chat_number) \<and>
    (case files w (words_file chat_number) of None \<Rightarrow> True
     | Some c \<Rightarrow> c = [] \<or> last c = LF) \<and>
    LF \<notin> set (strip (replace ''/learn'' [] phrase)) \<and>
    CR \<notin> set (strip (replace ''/learn'' [] phrase)) \<longrightarrow>
      corpus (learn_phrase phrase chat_number w) chat_number =
        corpus w chat_number @ [strip (replace ''/learn'' [] phrase)]) \<and>
   (\<not> sublist ''/learn'' phrase \<longrightarrow> strip (replace ''/learn'' [] phrase) = strip phrase)"
proof -
  let ?p = "strip (replace ''/learn'' [] phrase)"
  let ?f = "words_file chat_number"
  have 1: "?p = [] \<longrightarrow> learn_phrase phrase chat_number w = w"
    by (simp add: learn_phrase_eq)
  have 2: "?p \<noteq> [] \<and> writable w ?f \<longrightarrow>
      learn_phrase phrase chat_number w =
        w\<lparr>files := (files w)(?f \<mapsto> (case files w ?f of None \<Rightarrow> [] | Some c \<Rightarrow> c) @ ?p @ [LF])\<rparr>"
    by (simp add: learn_phrase_eq)
  have 3: "?p \<noteq> [] \<and> writable w ?f \<and> readable w ?f \<and>
    (case files w ?f of None \<Rightarrow> True | Some c \<Rightarrow> c = [] \<or> last c = LF) \<and>
    LF \<notin> set ?p \<and> CR \<notin> set ?p \<longrightarrow>
      corpus (learn_phrase phrase chat_number w) chat_number = corpus w chat_number @ [?p]"
  proof (intro impI, elim conjE)
    assume h: "?p \<noteq> []" "writable w ?f" "readable w ?f"
          "case files w ?f of None \<Rightarrow> True | Some c \<Rightarrow> c = [] \<or> last c = LF"
          "LF \<notin> set ?p" "CR \<notin> set ?p"
    define old where "old = (case files w ?f of None \<Rightarrow> [] | Some c \<Rightarrow> c)"
    have o: "old = [] \<or> last old = LF" using h(4) by (auto simp: old_def split: option.splits)
    have c: "corpus w chat_number = load_phrases (universal_newlines old)"
      using h(3) by (auto simp: corpus_def read_file_def old_def load_phrases_def file_lines_def
                       split: option.splits)
    have "corpus (learn_phrase phrase chat_number w) chat_number =
            load_phrases (universal_newlines (old @ ?p @ [LF]))"
      using h(1,2,3) by (simp add: learn_phrase_eq corpus_def read_file_def old_def)
    with load_phrases_append_line [OF o h(1) h(5) h(6)] c
    show "corpus (learn_phrase phrase chat_number w) chat_number = corpus w chat_number @ [?p]"
      by simp
  qed
  have 4: "\<not> sublist ''/learn'' phrase \<longrightarrow> ?p = strip phrase"
    by (simp add: replace_no_occurrence)
  show ?thesis by (rule conjI [OF 1 conjI [OF 2 conjI [OF 3 4]]])
qed

theorem learn_phrase_appends_witness:
  "strip (replace ''/learn'' [] ''  '') = [] \<and> learn_phrase ''  '' 1 fresh_world = fresh_world \<and>
   strip (replace ''/learn'' [] '' cats are great '') \<noteq> [] \<and>
   writable fresh_world (words_file 1) \<and> readable fresh_world (words_file 1) \<and>
   (case files fresh_world (words_file 1) of None \<Rightarrow> True | Some c \<Rightarrow> c = [] \<or> last c = LF) \<and>
   LF \<notin> set (strip (replace ''/learn'' [] '' cats are great '')) \<and>
   CR \<notin> set (strip (replace ''/learn'' [] '' cats are great '')) \<and>
   \<not> sublist ''/learn'' '' cats are great '' \<and>
   corpus (learn_phrase '' cats are great '' 1 fresh_world) 1 =
     corpus fresh_world 1 @ [strip '' cats are great '']"
proof -
  have a: "strip (replace ''/learn'' [] ''  '') = []" by code_simp
  have b: "strip (replace ''/learn'' [] '' cats are great '') \<noteq> []" by code_simp
  have c: "writable fresh_world (words_file 1)" "readable fresh_world (words_file 1)"
    by (simp_all add: fresh_world_def)
  have d: "case files fresh_world (words_file 1) of None \<Rightarrow> True | Some c \<Rightarrow> c = [] \<or> last c = LF"
    by (simp add: fresh_world_def)
  have e: "LF \<notin> set (strip (replace ''/learn'' [] '' cats are great ''))"
          "CR \<notin> set (strip (replace ''/learn'' [] '' cats are great ''))"
    by code_simp+
  have f: "\<not> sublist ''/learn'' '' cats are great ''" by code_simp
  have g: "learn_phrase ''  '' 1 fresh_world = fresh_world"
    by (rule learn_phrase_appends [of "''  ''" 1 fresh_world, THEN conjunct1, THEN mp, OF a])
  have h: "strip (replace ''/learn'' [] '' cats are great '') = strip '' cats are great ''"
    by (rule learn_phrase_appends [of "'' cats are great ''" 1 fresh_world,
              THEN conjunct2, THEN conjunct2, THEN conjunct2, THEN mp, OF f])
  have "corpus (learn_phrase '' cats are great '' 1 fresh_world) 1 =
     corpus fresh_world 1 @ [strip (replace ''/learn'' [] '' cats are great '')]"
    by (rule learn_phrase_appends [of "'' cats are great ''" 1 fresh_world,
              THEN conjunct2, THEN conjunct2, THEN conjunct1, THEN mp])
       (intro conjI b c d e)
  then have i: "corpus (learn_phrase '' cats are great '' 1 fresh_world) 1 =
     corpus fresh_world 1 @ [strip '' cats are great '']"
    by (simp only: h)
  show ?thesis by (intro conjI a b c d e f g i)
qed

text \<open>
  C5, as stated, fails: the phrase \<^verbatim>\<open>say /learn twice\<close> is already trimmed,
  and what is stored is \<^verbatim>\<open>say  twice\<close>; the message
  \<^verbatim>\<open>/learn say /learn twice\<close> leads there.
\<close>

theorem learn_phrase_not_verbatim_counterexample:
  "strip ''say /learn twice'' = ''say /learn twice'' \<and>
   files (learn_phrase ''say /learn twice'' 1 fresh_world) (words_file 1) =
     Some (''say  twice'' @ [LF]) \<and>
   corpus (fst (process_message ''/learn say /learn twice'' ''A'' 1 fresh_world)) 1 =
     [''say  twice'']"
  by code_simp

subsection \<open>Messages of group chats\<close>

lemma extract_group_raises:
  assumes "upd_message upd = Some m" "msg_text m = Some text"
      and "chat_type (msg_chat m) = Some t" "t = ''group'' \<or> t = ''supergroup''"
  shows "extract_message_info upd w = Inl UnboundLocalError"
  using assms by (auto simp: extract_message_info_def Let_def)

text \<open>
  C3. For every update with a text-bearing message whose chat type is
  \<open>group\<close> or \<open>supergroup\<close>, \<^verbatim>\<open>extract_message_info\<close> raises
  \<open>UnboundLocalError\<close> instead of returning the message tuple, and the loop
  over the batch stops there with the environment as it was: the message is
  neither routed nor answered.
\<close>

theorem group_message_raises:
  assumes "upd_message upd = Some m" and "msg_text m = Some text"
      and "chat_type (msg_chat m) = Some t" and "t = ''group'' \<or> t = ''supergroup''"
  shows "extract_message_info upd w = Inl UnboundLocalError \<and>
         process_updates (upd # rest) w = w"
  using extract_group_raises [OF assms] by simp

theorem group_message_raises_witness:
  "extract_message_info
     \<lparr>update_id = 9, upd_message = Some
        \<lparr>msg_chat = \<lparr>chat_id = - 1001, chat_type = Some ''supergroup'', title = Some ''Team''\<rparr>,
         msg_from = Some \<lparr>user_id = Some 7, first_name = Some ''A'', last_name = None\<rparr>,
         msg_text = Some ''/help''\<rparr>\<rparr> fresh_world = Inl UnboundLocalError"
proof -
  let ?m = "\<lparr>msg_chat = \<lparr>chat_id = - 1001, chat_type = Some ''supergroup'', title = Some ''Team''\<rparr>,
         msg_from = Some \<lparr>user_id = Some 7, first_name = Some ''A'', last_name = None\<rparr>,
         msg_text = Some ''/help''\<rparr>"
  have a: "upd_message \<lparr>update_id = 9, upd_message = Some ?m\<rparr> = Some ?m" by simp
  have b: "msg_text ?m = Some ''/help''" by simp
  have c: "chat_type (msg_chat ?m) = Some ''supergroup''" by simp
  have d: "''supergroup'' = ''group'' \<or> ''supergroup'' = ''supergroup''" by simp
  from group_message_raises [OF a b c d, of fresh_world "[]"] show ?thesis by simp
qed

subsection \<open>Polling and the lock marker\<close>

text \<open>
  C8. \<^verbatim>\<open>get_updates\<close> issues one request, for the updates after the cursor
  (\<open>offset + 1\<close>). When the answer is a body with \<open>ok\<close> true and a non-empty
  result, the cursor becomes the \<open>update_id\<close> of the last update and the
  updates are returned. When the request fails (network error, status other
  than 2xx, body that is not JSON), the result is \<^verbatim>\<open>None\<close> and \<open>self\<close>,
  with the cursor, is unchanged.
\<close>

theorem get_updates_cursor:
  "get_log (fst (snd (get_updates b w))) =
     get_log w @ [\<lparr>req_url = api_url b @ bot_token b @ ''/getUpdates'',
                   req_offset = offset b + 1, req_limit = 100, req_timeout = 30\<rparr>] \<and>
   (\<forall>us. http_get w (length (get_log w))
            \<lparr>req_url = api_url b @ bot_token b @ ''/getUpdates'',
             req_offset = offset b + 1, req_limit = 100, req_timeout = 30\<rparr> =
            Json \<lparr>ok = Some True, result = Some us\<rparr> \<and> us \<noteq> [] \<longrightarrow>
         offset (fst (get_updates b w)) = update_id (last us) \<and>
         snd (snd (get_updates b w)) = Some us) \<and>
   (http_get w (length (get_log w))
            \<lparr>req_url = api_url b @ bot_token b @ ''/getUpdates'',
             req_offset = offset b + 1, req_limit = 100, req_timeout = 30\<rparr>
       \<in> {RequestException, HTTPError, JSONDecodeError} \<longrightarrow>
         fst (get_updates b w) = b \<and> snd (snd (get_updates b w)) = None)"
  by (auto simp: get_updates_def Let_def split: http_result.splits)


theorem get_updates_cursor_witness:
  "offset (fst (get_updates \<lparr>api_url = ''https://api.telegram.org/bot'', bot_token = ''T'',
                             admin_id = 0, offset = 4\<rparr>
                 (fresh_world\<lparr>http_get := (\<lambda>k r. Json \<lparr>ok = Some True, result = Some
                    [\<lparr>update_id = 5, upd_message = None\<rparr>,
                     \<lparr>update_id = 7, upd_message = None\<rparr>]\<rparr>)\<rparr>))) = 7 \<and>
   offset (fst (get_updates \<lparr>api_url = ''https://api.telegram.org/bot'', bot_token = ''T'',
                             admin_id = 0, offset = 4\<rparr> fresh_world)) = 4"
proof -
  let ?b = "\<lparr>api_url = ''https://api.telegram.org/bot'', bot_token = ''T'',
             admin_id = 0, offset = 4\<rparr>"
  let ?us = "[\<lparr>update_id = 5, upd_message = None\<rparr>, \<lparr>update_id = 7, upd_message = None\<rparr>]"
  let ?w = "fresh_world\<lparr>http_get := (\<lambda>k r. Json \<lparr>ok = Some True, result = Some ?us\<rparr>)\<rparr>"
  have "offset (fst (get_updates ?b ?w)) = update_id (last ?us)"
    using get_updates_cursor [of ?b ?w] by simp
  moreover have "fst (get_updates ?b fresh_world) = ?b"
    using get_updates_cursor [of ?b fresh_world] by (simp add: fresh_world_def)
  ultimately show ?thesis by simp
qed

lemma get_log_append_file: "append_file w path data = Inr w' \<Longrightarrow> get_log w' = get_log w"
  by (auto simp: append_file_def split: if_splits)

lemma get_log_log_event: "get_log (log_event text logname w) = get_log w"
  by (auto simp: log_event_def Let_def get_log_append_file split: sum.splits)

lemma get_log_learn_phrase: "get_log (learn_phrase phrase chat_number w) = get_log w"
  by (simp add: learn_phrase_eq Let_def)

lemma get_log_find_similar_phrases:
  "get_log (fst (find_similar_phrases message chat_number w)) = get_log w"
  by (simp add: find_similar_phrases_eq Let_def)

lemma get_log_process_message:
  "get_log (fst (process_message message chat_name chat_number w)) = get_log w"
  by (simp add: process_message_def Let_def get_log_learn_phrase get_log_find_similar_phrases)

lemma get_log_extract_message_info:
  "extract_message_info upd w = Inr (w', r) \<Longrightarrow> get_log w' = get_log w"
  by (auto simp: extract_message_info_def Let_def get_log_log_event
           split: option.splits if_splits prod.splits)

lemma get_log_send_message: "get_log (fst (send_message cid text w)) = get_log w"
  by (simp add: send_message_def)

lemma get_log_process_updates: "get_log (process_updates updates w) = get_log w"
proof (induction updates arbitrary: w)
  case Nil
  then show ?case by simp
next
  case (Cons upd rest)
  show ?case
  proof (cases "extract_message_info upd w")
    case (Inl e)
    then show ?thesis by simp
  next
    case (Inr x)
    obtain w1 r where x: "x = (w1, r)" by (cases x)
    note g1 = get_log_extract_message_info [OF Inr [unfolded x]]
    show ?thesis
    proof (cases r)
      case None
      with Inr x g1 Cons.IH [of w1] show ?thesis by simp
    next
      case (Some info)
      obtain msg cid chat_name chat_number where i: "info = (msg, cid, chat_name, chat_number)"
        by (cases info)
      obtain w2 response where pm: "process_message msg chat_name chat_number w1 = (w2, response)"
        by (cases "process_message msg chat_name chat_number w1")
      have g2: "get_log w2 = get_log w1"
        using get_log_process_message [of msg chat_name chat_number w1] pm by simp
      show ?thesis
        using Inr x Some i pm g1 g2 Cons.IH [of w2]
              Cons.IH [of "fst (send_message cid (the response) w2)"]
              get_log_send_message [of cid "the response" w2]
        by (auto split: option.splits)
    qed
  qed
qed

lemma get_log_iteration: "length (get_log (snd (iteration b w))) = Suc (length (get_log w))"
  by (auto simp: iteration_def get_updates_def Let_def get_log_process_updates
           split: http_result.splits prod.splits option.splits)

lemma get_log_main_loop: "length (get_log (snd (main_loop n b w))) = length (get_log w) + n"
proof (induction n arbitrary: b w)
  case 0
  then show ?case by simp
next
  case (Suc n)
  obtain b' w' where i: "iteration b w = (b', w')" by (cases "iteration b w")
  with get_log_iteration [of b w] Suc [of b' w'] show ?case by simp
qed

lemma get_log_release_lock: "get_log (release_lock w) = get_log w"
  by (simp add: release_lock_def)

text \<open>
  C9. If the lock marker exists and \<^verbatim>\<open>/proc/<pid>\<close> exists for the process
  id recorded in it, \<^verbatim>\<open>run\<close> returns at once: nothing changes and no
  request is issued. If the marker exists, the recorded process is dead, and the
  marker can be written, the marker is overwritten with the current process id
  and \<^verbatim>\<open>run\<close> goes on to the main loop, which polls once per turn.
\<close>

theorem lock_marker:
  "(files w lock_file = Some content \<and> readable w lock_file \<and>
    os_path_exists w (''/proc/'' @ strip (universal_newlines content)) \<longrightarrow>
      acquire_lock w = (w, False) \<and> run n b w = (b, w)) \<and>
   (files w lock_file = Some content \<and> readable w lock_file \<and>
    \<not> os_path_exists w (''/proc/'' @ strip (universal_newlines content)) \<and>
    writable w lock_file \<longrightarrow>
      acquire_lock w = (w\<lparr>files := (files w)(lock_file \<mapsto> str_nat (pid w))\<rparr>, True) \<and>
      run n b w =
        (case main_loop n b (w\<lparr>files := (files w)(lock_file \<mapsto> str_nat (pid w))\<rparr>) of
           (b', w') \<Rightarrow> (b', release_lock w')) \<and>
      length (get_log (snd (run n b w))) = length (get_log w) + n)"
proof (intro conjI impI; elim conjE)
  assume h: "files w lock_file = Some content" "readable w lock_file"
            "os_path_exists w (''/proc/'' @ strip (universal_newlines content))"
  then have "acquire_lock w = (w, False)"
    by (simp add: acquire_lock_def read_file_def os_path_exists_def)
  then show "acquire_lock w = (w, False)" "run n b w = (b, w)"
    by (simp_all add: run_def)
next
  assume h: "files w lock_file = Some content" "readable w lock_file"
            "\<not> os_path_exists w (''/proc/'' @ strip (universal_newlines content))"
            "writable w lock_file"
  let ?w = "w\<lparr>files := (files w)(lock_file \<mapsto> str_nat (pid w))\<rparr>"
  from h show a: "acquire_lock w = (?w, True)"
    by (simp add: acquire_lock_def read_file_def write_file_def)
  then show r: "run n b w = (case main_loop n b ?w of (b', w') \<Rightarrow> (b', release_lock w'))"
    by (simp add: run_def)
  show "length (get_log (snd (run n b w))) = length (get_log w) + n"
    using get_log_main_loop [of n b ?w]
    by (auto simp: r get_log_release_lock split: prod.splits)
qed


theorem lock_marker_witness:
  "(os_path_exists (fresh_world\<lparr>files := [lock_file \<mapsto> ''77'' @ [LF]],
                                 other_paths := (\<lambda>p. p = ''/proc/77'')\<rparr>)
      (''/proc/'' @ strip (universal_newlines (''77'' @ [LF]))) \<and>
    snd (acquire_lock (fresh_world\<lparr>files := [lock_file \<mapsto> ''77'' @ [LF]],
                                   other_paths := (\<lambda>p. p = ''/proc/77'')\<rparr>)) = False) \<and>
   (\<not> os_path_exists (fresh_world\<lparr>files := [lock_file \<mapsto> ''77'' @ [LF]]\<rparr>)
      (''/proc/'' @ strip (universal_newlines (''77'' @ [LF]))) \<and>
    files (fst (acquire_lock (fresh_world\<lparr>files := [lock_file \<mapsto> ''77'' @ [LF]]\<rparr>)))
      lock_file = Some ''4242'' \<and>
    length (get_log (snd (run 3 \<lparr>api_url = ''u'', bot_token = ''t'', admin_id = 0, offset = 0\<rparr>
                           (fresh_world\<lparr>files := [lock_file \<mapsto> ''77'' @ [LF]]\<rparr>)))) = 3)"
proof -
  let ?live = "fresh_world\<lparr>files := [lock_file \<mapsto> ''77'' @ [LF]],
                          other_paths := (\<lambda>p. p = ''/proc/77'')\<rparr>"
  let ?stale = "fresh_world\<lparr>files := [lock_file \<mapsto> ''77'' @ [LF]]\<rparr>"
  let ?b = "\<lparr>api_url = ''u'', bot_token = ''t'', admin_id = 0, offset = 0\<rparr>"
  have f: "files ?live lock_file = Some (''77'' @ [LF])" "readable ?live lock_file"
          "files ?stale lock_file = Some (''77'' @ [LF])" "readable ?stale lock_file"
          "writable ?stale lock_file"
    by (simp_all add: fresh_world_def)
  have l: "os_path_exists ?live (''/proc/'' @ strip (universal_newlines (''77'' @ [LF])))"
    by code_simp
  have s: "\<not> os_path_exists ?stale (''/proc/'' @ strip (universal_newlines (''77'' @ [LF])))"
    by code_simp
  have "acquire_lock ?live = (?live, False) \<and> run 3 ?b ?live = (?b, ?live)"
    by (rule lock_marker [of ?live "''77'' @ [LF]" 3 ?b, THEN conjunct1, THEN mp])
       (intro conjI f l)
  then have 1: "snd (acquire_lock ?live) = False" by simp
  have st: "acquire_lock ?stale =
          (?stale\<lparr>files := (files ?stale)(lock_file \<mapsto> str_nat (pid ?stale))\<rparr>, True) \<and>
        run 3 ?b ?stale =
          (case main_loop 3 ?b (?stale\<lparr>files := (files ?stale)(lock_file \<mapsto> str_nat (pid ?stale))\<rparr>) of
             (b', w') \<Rightarrow> (b', release_lock w')) \<and>
        length (get_log (snd (run 3 ?b ?stale))) = length (get_log ?stale) + 3"
    by (rule lock_marker [of ?stale "''77'' @ [LF]" 3 ?b, THEN conjunct2, THEN mp])
       (intro conjI f s)
  have 2: "files (fst (acquire_lock ?stale)) lock_file = Some (str_nat (pid ?stale))"
    by (subst st [THEN conjunct1]) simp
  have 3: "length (get_log (snd (run 3 ?b ?stale))) = length (get_log ?stale) + 3"
    by (rule st [THEN conjunct2, THEN conjunct2])
  have p: "str_nat (pid ?stale) = ''4242''" by code_simp
  have g: "get_log ?stale = []" by (simp add: fresh_world_def)
  have a2: "files (fst (acquire_lock ?stale)) lock_file = Some ''4242''"
    by (simp only: 2 p)
  have a3: "length (get_log (snd (run 3 ?b ?stale))) = 3"
    by (simp only: 3 g list.size add_0)
  show ?thesis by (intro conjI l 1 s a2 a3)
qed

end
